theory Spec2Isabelle
  imports
    Complex_Main
    "HOL-Library.Multiset"
    "HOL-Library.Char_ord"
    "HOL-Library.List_Lexorder"
    "HOL-Library.Product_Lexorder"
begin

section \<open>Sorting with a caller-supplied comparison (Go's \<open>sort.Slice\<close>)\<close>

text \<open>
  \<open>sort.Slice(xs, less)\<close> sorts in place with the comparison \<open>less\<close> (written \<open>lt\<close>
  below). For slices of at most 12 elements the Go runtime runs a plain insertion sort:
  element \<open>i\<close> is swapped to the left while \<open>less(xs[j], xs[j-1])\<close> holds. \<open>insertLeft\<close> is
  that inner loop, working on the already sorted prefix held in reverse (nearest neighbour
  first); \<open>sortSlice\<close> is the outer loop. Longer slices are sorted by another algorithm of the runtime; every
  theorem below uses of \<open>sortSlice\<close> only that its result is a permutation of the
  input ordered by the comparison, which holds of any sorting algorithm.

  Strings are compared bytewise (\<open>List_Lexorder\<close> over \<open>Char_ord\<close>), as Go compares them.
  A \<open>float64\<close> is modelled by the real number it denotes: the code only compares these
  values, it performs no arithmetic on them (NaN is not modelled).
\<close>

fun insertLeft :: "('a \<Rightarrow> 'a \<Rightarrow> bool) \<Rightarrow> 'a \<Rightarrow> 'a list \<Rightarrow> 'a list" where
  "insertLeft lt x [] = [x]"
| "insertLeft lt x (p # ps) =
     (if lt x p then p # insertLeft lt x ps else x # p # ps)"

definition sortSlice :: "('a \<Rightarrow> 'a \<Rightarrow> bool) \<Rightarrow> 'a list \<Rightarrow> 'a list" where
  "sortSlice lt xs = rev (foldl (\<lambda>acc x. insertLeft lt x acc) [] xs)"

section \<open>Priority explanations (pkg/analysis/whatif.go)\<close>

text \<open>
  \<open>ImpactScore\<close> and its \<open>Breakdown\<close> are declared outside the files at hand; the records
  carry the fields that whatif.go reads.
\<close>

record ScoreBreakdown =
  PageRank :: real
  PageRankNorm :: real
  Betweenness :: real
  BetweennessNorm :: real
  BlockerRatio :: real
  BlockerRatioNorm :: real
  Staleness :: real
  StalenessNorm :: real
  PriorityBoost :: real
  PriorityBoostNorm :: real
  TimeToImpact :: real
  TimeToImpactNorm :: real
  Urgency :: real
  UrgencyNorm :: real
  Risk :: real
  RiskNorm :: real

record ImpactScore =
  IssueID :: string
  Title :: string
  Priority :: int
  Score :: real
  Breakdown :: ScoreBreakdown

record PriorityReason =
  Factor :: string
  Weight :: real
  Explanation :: string
  Emoji :: string

text \<open>The anonymous struct of \<open>GenerateTopReasons\<close>: one entry per scoring factor.\<close>

record factor =
  f_name :: string
  f_weight :: real
  f_norm :: real
  f_explanation :: string
  f_emoji :: string

text \<open>The emoji literals are written as their UTF-8 bytes.\<close>

definition factors :: "ImpactScore \<Rightarrow> factor list" where
  "factors score = (let b = Breakdown score in
     [ \<lparr>f_name = ''pagerank'', f_weight = PageRank b, f_norm = PageRankNorm b,
         f_explanation = ''Central in dependency graph'',
         f_emoji = [CHR 0xF0, CHR 0x9F, CHR 0x8E, CHR 0xAF]\<rparr>,
       \<lparr>f_name = ''betweenness'', f_weight = Betweenness b, f_norm = BetweennessNorm b,
         f_explanation = ''Critical path bottleneck'',
         f_emoji = [CHR 0xF0, CHR 0x9F, CHR 0x94, CHR 0x80]\<rparr>,
       \<lparr>f_name = ''blockers'', f_weight = BlockerRatio b, f_norm = BlockerRatioNorm b,
         f_explanation = ''High blocker count'',
         f_emoji = [CHR 0xF0, CHR 0x9F, CHR 0x9A, CHR 0xA7]\<rparr>,
       \<lparr>f_name = ''staleness'', f_weight = Staleness b, f_norm = StalenessNorm b,
         f_explanation = ''Needs attention (aging)'',
         f_emoji = [CHR 0xE2, CHR 0x8F, CHR 0xB0]\<rparr>,
       \<lparr>f_name = ''priority'', f_weight = PriorityBoost b, f_norm = PriorityBoostNorm b,
         f_explanation = ''Explicit priority set'',
         f_emoji = [CHR 0xE2, CHR 0xAD, CHR 0x90]\<rparr>,
       \<lparr>f_name = ''time_to_impact'', f_weight = TimeToImpact b, f_norm = TimeToImpactNorm b,
         f_explanation = ''Fast impact potential'',
         f_emoji = [CHR 0xE2, CHR 0x9A, CHR 0xA1]\<rparr>,
       \<lparr>f_name = ''urgency'', f_weight = Urgency b, f_norm = UrgencyNorm b,
         f_explanation = ''Urgent labels/timing'',
         f_emoji = [CHR 0xF0, CHR 0x9F, CHR 0x94, CHR 0xA5]\<rparr>,
       \<lparr>f_name = ''risk'', f_weight = Risk b, f_norm = RiskNorm b,
         f_explanation = ''Risk/volatility factors'',
         f_emoji = [CHR 0xE2, CHR 0x9A, CHR 0xA0, CHR 0xEF, CHR 0xB8, CHR 0x8F]\<rparr> ])"

definition factorLess :: "factor \<Rightarrow> factor \<Rightarrow> bool" where
  "factorLess fi fj = (f_weight fi > f_weight fj)"

text \<open>
  The weights and normalized values are \<open>float64\<close>; the code only compares them. A finite
  \<open>float64\<close> is modelled by the real number it is. The literals \<open>0.7\<close>, \<open>0.4\<close>, \<open>0.2\<close> and
  \<open>0.01\<close> that they are compared with are \<open>float64\<close> constants, each the \<open>float64\<close> nearest
  to the decimal written: \<open>0x1.6666666666666p-1\<close>, a little under 7/10, and
  \<open>0x1.999999999999ap-2\<close>, \<open>0x1.999999999999ap-3\<close> and \<open>0x1.47ae147ae147bp-7\<close>, a little
  over 4/10, 2/10 and 1/100.
\<close>

definition f64_0_7 :: real where
  "f64_0_7 = 3152519739159347 / 2 ^ 52"

definition f64_0_4 :: real where
  "f64_0_4 = 3602879701896397 / 2 ^ 53"

definition f64_0_2 :: real where
  "f64_0_2 = 3602879701896397 / 2 ^ 54"

definition f64_0_01 :: real where
  "f64_0_01 = 5764607523034235 / 2 ^ 59"

definition explain :: "factor \<Rightarrow> string" where
  "explain f =
     (if f_norm f > f64_0_7 then ''Very high: '' @ f_explanation f
      else if f_norm f > f64_0_4 then ''High: '' @ f_explanation f
      else if f_norm f > f64_0_2 then ''Moderate: '' @ f_explanation f
      else f_explanation f)"

definition mkReason :: "factor \<Rightarrow> PriorityReason" where
  "mkReason f = \<lparr>Factor = f_name f, Weight = f_weight f, Explanation = explain f,
                 Emoji = f_emoji f\<rparr>"

text \<open>The \<open>for _, f := range factors\<close> loop, with its \<open>continue\<close> and its \<open>break\<close>.\<close>

fun topReasonsLoop :: "factor list \<Rightarrow> PriorityReason list \<Rightarrow> PriorityReason list" where
  "topReasonsLoop [] reasons = reasons"
| "topReasonsLoop (f # fs) reasons =
     (if f_weight f < f64_0_01 then topReasonsLoop fs reasons
      else if length reasons \<ge> 3 then reasons
      else topReasonsLoop fs (reasons @ [mkReason f]))"

definition GenerateTopReasons :: "ImpactScore \<Rightarrow> PriorityReason list" where
  "GenerateTopReasons score = topReasonsLoop (sortSlice factorLess (factors score)) []"

subsection \<open>Issues and what-if deltas\<close>

text \<open>
  \<open>model.Issue\<close>, \<open>model.Status\<close>, \<open>WhatIfDelta\<close> and \<open>PriorityRecommendation\<close> are declared
  outside the files at hand; the records carry the fields that the code and the
  specification name. Where two structs share a field name, the later record prefixes it
  (\<open>i_Title\<close>, \<open>we_IssueID\<close>, \<open>pr_IssueID\<close>, \<open>pe_WhatIf\<close>, ...).
\<close>

datatype Status = StatusOpen | StatusInProgress | StatusBlocked | StatusClosed

datatype DependencyType = DepBlocks | DepRelated | DepParentChild | DepDiscoveredFrom

datatype IssueType = TypeBug | TypeFeature | TypeTask | TypeEpic | TypeChore

record Dependency =
  DependsOnID :: string
  Type :: DependencyType

text \<open>\<open>UpdatedAt\<close> is a time in seconds; \<open>EstimateDays\<close> is optional.\<close>

record Issue =
  ID :: string
  i_Title :: string
  Status :: Status
  i_Priority :: int
  IssueType :: IssueType
  UpdatedAt :: int
  EstimateDays :: "real option"
  Dependencies :: "Dependency list"

record WhatIfDelta =
  DirectUnblocks :: int
  TransitiveUnblocks :: int
  UnblockedIssueIDs :: "string list"

record WhatIfEntry =
  we_IssueID :: string
  we_Title :: string
  Delta :: WhatIfDelta

text \<open>
  The analyzer, as far as the code at hand reads it: \<open>issueMap\<close> is a Go map, held here as
  the list of its entries in the order one \<open>range\<close> loop visits them (Go fixes no order);
  \<open>idToNode\<close> maps an issue ID to its graph node; \<open>g_To n\<close> lists what the graph library's
  iterator \<open>g.To(n)\<close> yields, the nodes with an edge into \<open>n\<close>.
\<close>

record Analyzer =
  issueMap :: "(string \<times> Issue) list"
  idToNode :: "string \<rightharpoonup> int"
  g_To :: "int \<Rightarrow> int list"

subsection \<open>\<open>TopWhatIfDeltas\<close>\<close>

text \<open>
  \<open>computeWhatIfDelta\<close> is a method defined outside the files at hand: the functions below
  take it as the parameter \<open>cwd\<close>, \<open>None\<close> standing for the \<open>nil\<close> it may return.
\<close>

fun collectWhatIf :: "(string \<Rightarrow> WhatIfDelta option) \<Rightarrow> (string \<times> Issue) list \<Rightarrow>
    WhatIfEntry list \<Rightarrow> WhatIfEntry list" where
  "collectWhatIf cwd [] results = results"
| "collectWhatIf cwd ((iid, issue) # rest) results =
     (if Status issue = StatusClosed then collectWhatIf cwd rest results
      else case cwd iid of
        None \<Rightarrow> collectWhatIf cwd rest results
      | Some delta \<Rightarrow>
          if DirectUnblocks delta > 0 \<or> TransitiveUnblocks delta > 0
          then collectWhatIf cwd rest
                 (results @ [\<lparr>we_IssueID = iid, we_Title = i_Title issue, Delta = delta\<rparr>])
          else collectWhatIf cwd rest results)"

definition whatIfLess :: "WhatIfEntry \<Rightarrow> WhatIfEntry \<Rightarrow> bool" where
  "whatIfLess ri rj =
     (if TransitiveUnblocks (Delta ri) \<noteq> TransitiveUnblocks (Delta rj)
      then TransitiveUnblocks (Delta ri) > TransitiveUnblocks (Delta rj)
      else if DirectUnblocks (Delta ri) \<noteq> DirectUnblocks (Delta rj)
      then DirectUnblocks (Delta ri) > DirectUnblocks (Delta rj)
      else we_IssueID ri < we_IssueID rj)"

definition TopWhatIfDeltas ::
    "(string \<Rightarrow> WhatIfDelta option) \<Rightarrow> Analyzer \<Rightarrow> int \<Rightarrow> WhatIfEntry list" where
  "TopWhatIfDeltas cwd a n0 =
     (let n = (if n0 \<le> 0 then 10 else n0);
          results = sortSlice whatIfLess (collectWhatIf cwd (issueMap a) []);
          n = (if n > int (length results) then int (length results) else n)
      in take (nat n) results)"

text \<open>
  What one turn of the loop of \<open>TopWhatIfDeltas\<close> appends for a map entry: nothing for a
  closed issue, for a \<open>nil\<close> delta or for a delta that unblocks nothing.
\<close>

definition whatIfEntryOf :: "(string \<Rightarrow> WhatIfDelta option) \<Rightarrow> string \<times> Issue \<Rightarrow> WhatIfEntry list" where
  "whatIfEntryOf cwd p =
     (if Status (snd p) = StatusClosed then []
      else case cwd (fst p) of
        None \<Rightarrow> []
      | Some delta \<Rightarrow>
          if DirectUnblocks delta > 0 \<or> TransitiveUnblocks delta > 0
          then [\<lparr>we_IssueID = fst p, we_Title = i_Title (snd p), Delta = delta\<rparr>]
          else [])"

text \<open>The comparison of \<open>TopWhatIfDeltas\<close> is the lexicographic order of this key.\<close>

definition whatIfKey :: "WhatIfEntry \<Rightarrow> int \<times> int \<times> string" where
  "whatIfKey e = (- TransitiveUnblocks (Delta e), - DirectUnblocks (Delta e), we_IssueID e)"

text \<open>
  \<open>rankedBefore x y\<close>: \<open>x\<close> may stand before \<open>y\<close> in a list ordered by transitive unblocks
  descending, then direct unblocks descending, then issue ID ascending.
\<close>

definition rankedBefore :: "WhatIfEntry \<Rightarrow> WhatIfEntry \<Rightarrow> bool" where
  "rankedBefore x y =
     (TransitiveUnblocks (Delta x) > TransitiveUnblocks (Delta y) \<or>
      TransitiveUnblocks (Delta x) = TransitiveUnblocks (Delta y) \<and>
        (DirectUnblocks (Delta x) > DirectUnblocks (Delta y) \<or>
         DirectUnblocks (Delta x) = DirectUnblocks (Delta y) \<and> we_IssueID x \<le> we_IssueID y))"

subsection \<open>\<open>GenerateEnhancedRecommendationsWithThresholds\<close>\<close>

record PriorityRecommendation =
  pr_IssueID :: string
  pr_Title :: string
  CurrentPriority :: int
  SuggestedPriority :: int
  pr_ImpactScore :: real
  Confidence :: real
  Reasoning :: "string list"
  Direction :: string

record ExplanationStatus =
  ComputedAt :: string
  DataHash :: string
  Phase2Ready :: bool
  Deterministic :: bool
  es_Capped :: bool
  CappedFields :: string

record PriorityExplanation =
  TopReasons :: "PriorityReason list"
  pe_WhatIf :: "WhatIfDelta option"
  pe_Status :: ExplanationStatus

text \<open>The embedded \<open>PriorityRecommendation\<close> is a record extension: its fields are promoted.\<close>

record EnhancedPriorityRecommendation = PriorityRecommendation +
  epr_Explanation :: PriorityExplanation

definition extractReasoningStrings :: "PriorityReason list \<Rightarrow> string list" where
  "extractReasoningStrings reasons = map (\<lambda>r. Emoji r @ '' '' @ Explanation r) reasons"

text \<open>\<open>recMap[basicRecs[i].IssueID] = &basicRecs[i]\<close>: a later entry replaces an earlier one.\<close>

definition recMapOf :: "PriorityRecommendation list \<Rightarrow> (string \<rightharpoonup> PriorityRecommendation)" where
  "recMapOf basicRecs = foldl (\<lambda>m r. m(pr_IssueID r \<mapsto> r)) Map.empty basicRecs"

definition explanationCapped :: "WhatIfDelta option \<Rightarrow> bool" where
  "explanationCapped whatIf =
     (case whatIf of None \<Rightarrow> False
      | Some d \<Rightarrow> int (length (UnblockedIssueIDs d)) < DirectUnblocks d)"

definition mkExplanation :: "string \<Rightarrow> PriorityReason list \<Rightarrow> WhatIfDelta option \<Rightarrow>
    PriorityExplanation" where
  "mkExplanation now topReasons whatIf =
     \<lparr>TopReasons = topReasons, pe_WhatIf = whatIf,
      pe_Status = \<lparr>ComputedAt = now, DataHash = [], Phase2Ready = True, Deterministic = True,
        es_Capped = explanationCapped whatIf,
        CappedFields = (if explanationCapped whatIf then ''unblocked_issue_ids'' else [])\<rparr>\<rparr>"

text \<open>
  The loop over \<open>scores\<close>. \<open>now\<close> is the formatted \<open>time.Now().UTC()\<close>, read once before
  the loop.
\<close>

fun enhanceLoop :: "(string \<Rightarrow> WhatIfDelta option) \<Rightarrow> (string \<rightharpoonup> PriorityRecommendation) \<Rightarrow>
    string \<Rightarrow> ImpactScore list \<Rightarrow> EnhancedPriorityRecommendation list \<Rightarrow>
    EnhancedPriorityRecommendation list" where
  "enhanceLoop cwd recMap now [] enhanced = enhanced"
| "enhanceLoop cwd recMap now (score # rest) enhanced =
     (let whatIf = cwd (IssueID score);
          topReasons = GenerateTopReasons score;
          explanation = mkExplanation now topReasons whatIf
      in case recMap (IssueID score) of
        Some rec \<Rightarrow>
          enhanceLoop cwd recMap now rest
            (enhanced @ [PriorityRecommendation.extend rec
               (EnhancedPriorityRecommendation.fields explanation)])
      | None \<Rightarrow>
          (case whatIf of
            None \<Rightarrow> enhanceLoop cwd recMap now rest enhanced
          | Some d \<Rightarrow>
              if DirectUnblocks d > 0 \<or> TransitiveUnblocks d > 2
              then enhanceLoop cwd recMap now rest
                (enhanced @ [\<lparr>pr_IssueID = IssueID score, pr_Title = Title score,
                   CurrentPriority = Priority score, SuggestedPriority = Priority score,
                   pr_ImpactScore = Score score, Confidence = 0.5,
                   Reasoning = extractReasoningStrings topReasons, Direction = ''none'',
                   epr_Explanation = explanation\<rparr>])
              else enhanceLoop cwd recMap now rest enhanced))"

definition enhancedLess ::
    "EnhancedPriorityRecommendation \<Rightarrow> EnhancedPriorityRecommendation \<Rightarrow> bool" where
  "enhancedLess ei ej = (pr_ImpactScore ei > pr_ImpactScore ej)"

text \<open>
  \<open>scores\<close> is what \<open>a.ComputeImpactScores()\<close> returned and \<open>basicRecs\<close> what
  \<open>a.GenerateRecommendationsWithThresholds(thresholds)\<close> returned: both methods are defined
  outside the files at hand. The \<open>nil\<close> slice returned for no scores is the empty list.
\<close>

definition GenerateEnhancedRecommendationsWithThresholds ::
    "(string \<Rightarrow> WhatIfDelta option) \<Rightarrow> string \<Rightarrow> ImpactScore list \<Rightarrow>
     PriorityRecommendation list \<Rightarrow> EnhancedPriorityRecommendation list" where
  "GenerateEnhancedRecommendationsWithThresholds cwd now scores basicRecs =
     (if length scores = 0 then []
      else let enhanced = sortSlice enhancedLess
                 (enhanceLoop cwd (recMapOf basicRecs) now scores [])
           in if length enhanced > 10 then take 10 enhanced else enhanced)"

text \<open>
  What one turn of the loop of \<open>GenerateEnhancedRecommendationsWithThresholds\<close> appends for
  a score: the basic recommendation of the issue when there is one, else a recommendation
  without priority change when the what-if delta is significant, else nothing.
\<close>

definition enhancedOf :: "(string \<Rightarrow> WhatIfDelta option) \<Rightarrow>
    (string \<rightharpoonup> PriorityRecommendation) \<Rightarrow> string \<Rightarrow> ImpactScore \<Rightarrow>
    EnhancedPriorityRecommendation list" where
  "enhancedOf cwd recMap now score =
     (let explanation = mkExplanation now (GenerateTopReasons score) (cwd (IssueID score))
      in case recMap (IssueID score) of
        Some rec \<Rightarrow> [PriorityRecommendation.extend rec
                      (EnhancedPriorityRecommendation.fields explanation)]
      | None \<Rightarrow>
          (case cwd (IssueID score) of
            None \<Rightarrow> []
          | Some d \<Rightarrow>
              if DirectUnblocks d > 0 \<or> TransitiveUnblocks d > 2
              then [\<lparr>pr_IssueID = IssueID score, pr_Title = Title score,
                     CurrentPriority = Priority score, SuggestedPriority = Priority score,
                     pr_ImpactScore = Score score, Confidence = 0.5,
                     Reasoning = extractReasoningStrings (GenerateTopReasons score),
                     Direction = ''none'', epr_Explanation = explanation\<rparr>]
              else []))"

subsection \<open>Examples\<close>

text \<open>
  An impact score used as a running example. Its numbers are dyadic fractions, which
  \<open>float64\<close> holds as they are.
\<close>

definition exScore :: ImpactScore where
  "exScore = \<lparr>IssueID = ''bv-1'', Title = ''Fix'', Priority = 1, Score = 0.5390625,
     Breakdown = \<lparr>PageRank = 0.25, PageRankNorm = 0.875, Betweenness = 0.0625,
       BetweennessNorm = 0.5, BlockerRatio = 0.046875, BlockerRatioNorm = 0.3125,
       Staleness = 0.0078125, StalenessNorm = 0.0625, PriorityBoost = 0.125,
       PriorityBoostNorm = 0.75, TimeToImpact = 0.015625, TimeToImpactNorm = 0.25,
       Urgency = 0, UrgencyNorm = 0, Risk = 0.03125, RiskNorm = 1\<rparr>\<rparr>"

text \<open>A small analyzer and a what-if function used as running examples.\<close>

definition exIssue :: "string \<Rightarrow> Status \<Rightarrow> string list \<Rightarrow> Issue" where
  "exIssue i st deps = \<lparr>ID = i, i_Title = ''Issue '' @ i, Status = st, i_Priority = 2,
     IssueType = TypeTask, UpdatedAt = 1700000000, EstimateDays = None,
     Dependencies = map (\<lambda>d. \<lparr>DependsOnID = d, Type = DepBlocks\<rparr>) deps\<rparr>"

definition exAnalyzer :: Analyzer where
  "exAnalyzer = \<lparr>issueMap =
       [(''c'', exIssue ''c'' StatusOpen []), (''a'', exIssue ''a'' StatusInProgress []),
        (''z'', exIssue ''z'' StatusClosed []), (''b'', exIssue ''b'' StatusOpen []),
        (''d'', exIssue ''d'' StatusBlocked [])],
     idToNode = Map.empty, g_To = (\<lambda>n. [])\<rparr>"

definition exCwd :: "string \<Rightarrow> WhatIfDelta option" where
  "exCwd i =
     (if i = ''a'' \<or> i = ''b''
      then Some \<lparr>DirectUnblocks = 1, TransitiveUnblocks = 2, UnblockedIssueIDs = [''c'']\<rparr>
      else if i = ''c'' \<or> i = ''z''
      then Some \<lparr>DirectUnblocks = 2, TransitiveUnblocks = 2, UnblockedIssueIDs = [''a'', ''b'']\<rparr>
      else if i = ''d''
      then Some \<lparr>DirectUnblocks = 0, TransitiveUnblocks = 0, UnblockedIssueIDs = []\<rparr>
      else None)"

text \<open>Two scores that tie, the first of lower priority (a higher number) than the second.\<close>

definition exTie :: "ImpactScore list" where
  "exTie = [exScore\<lparr>IssueID := ''a'', Priority := 2, Score := 0.5\<rparr>,
            exScore\<lparr>IssueID := ''b'', Priority := 1, Score := 0.5\<rparr>]"

section \<open>The what-if delta of the specification\<close>

text \<open>
  Modelled from the spec: the dependency graph of section 3 of the specification. The
  graph builder is not in the files at hand. \<open>blockedBy a b\<close> is the edge from issue \<open>a\<close> to
  the issue of ID \<open>b\<close>: \<open>a\<close> has a dependency of kind blocks on \<open>b\<close>; self-loops are rejected.
\<close>

definition blockedBy :: "Issue \<Rightarrow> string \<Rightarrow> bool" where
  "blockedBy a b \<longleftrightarrow>
     ID a \<noteq> b \<and> (\<exists>d \<in> set (Dependencies a). Type d = DepBlocks \<and> DependsOnID d = b)"

text \<open>
  Modelled from the spec: the issues with \<open>x\<close> as a blocking dependency, in input order,
  parallel edges collapsed.
\<close>

definition dependents :: "Issue list \<Rightarrow> string \<Rightarrow> string list" where
  "dependents issues x = remdups (map ID (filter (\<lambda>a. blockedBy a x) issues))"

text \<open>
  Modelled from the spec: the reverse-blocking breadth-first search of section 4.5.
  \<open>visited\<close> lists the issues found so far in the order they were found, \<open>queue\<close> those
  whose dependents are still to be looked at.
\<close>

function reverseBFS :: "Issue list \<Rightarrow> string list \<Rightarrow> string list \<Rightarrow> string list" where
  "reverseBFS issues visited [] = visited"
| "reverseBFS issues visited (q # queue) =
     (let new = filter (\<lambda>y. y \<notin> set visited) (dependents issues q)
      in reverseBFS issues (visited @ new) (queue @ new))"
  by pat_completeness auto

termination reverseBFS
proof (relation "measures [\<lambda>(issues, visited, queue). card (ID ` set issues - set visited),
                           \<lambda>(issues, visited, queue). length queue]", goal_cases)
  case 1
  then show ?case by simp
next
  case (2 issues visited q queue new)
  show ?case
  proof (cases "new = []")
    case True
    then show ?thesis by simp
  next
    case False
    then obtain y where y: "y \<in> set new" by (cases new) auto
    with 2 have "y \<in> ID ` set issues" "y \<notin> set visited"
      by (auto simp: dependents_def)
    with y have "ID ` set issues - set (visited @ new) \<subset> ID ` set issues - set visited"
      by auto
    then have "card (ID ` set issues - set (visited @ new))
        < card (ID ` set issues - set visited)"
      by (intro psubset_card_mono) auto
    then show ?thesis by simp
  qed
qed

text \<open>
  Modelled from the spec: the open issues among a list of issue IDs. An issue is open
  when its status is \<open>open\<close>; the status of an ID is that of the first issue that has it.
\<close>

definition statusOf :: "Issue list \<Rightarrow> string \<Rightarrow> Status option" where
  "statusOf issues x = map_option Status (find (\<lambda>i. ID i = x) issues)"

definition openIDs :: "Issue list \<Rightarrow> string list \<Rightarrow> string list" where
  "openIDs issues xs = filter (\<lambda>x. statusOf issues x = Some StatusOpen) xs"

text \<open>
  Modelled from the spec: \<open>WhatIf(X)\<close> of section 4.5, the method \<open>computeWhatIfDelta\<close> of
  the code, which is not in the files at hand. \<open>DirectUnblocks\<close> counts the open issues with
  \<open>X\<close> as a blocking dependency; \<open>TransitiveUnblocks\<close> counts the open issues reachable by
  the reverse-blocking breadth-first search from \<open>X\<close>, \<open>X\<close> itself left out;
  \<open>UnblockedIssueIDs\<close> is the ordered list of the first \<open>cap\<close> of them (20 by default). The
  depth reduction and the days saved are not modelled. There is no delta (\<open>nil\<close>) for an ID
  that is not an issue's.
\<close>

definition WhatIf :: "nat \<Rightarrow> Issue list \<Rightarrow> string \<Rightarrow> WhatIfDelta option" where
  "WhatIf cap issues x =
     (if x \<notin> ID ` set issues then None
      else let direct = openIDs issues (dependents issues x);
               reached = openIDs issues (tl (reverseBFS issues [x] [x]))
           in Some \<lparr>DirectUnblocks = int (length direct),
                    TransitiveUnblocks = int (length reached),
                    UnblockedIssueIDs = take cap reached\<rparr>)"

definition defaultCap :: nat where
  "defaultCap = 20"




text \<open>Scenario A of the specification and a star of three issues blocked by \<open>hub\<close>.\<close>

definition scenarioA :: "Issue list" where
  "scenarioA = [exIssue ''A'' StatusOpen [''B''], exIssue ''B'' StatusOpen []]"

definition star :: "Issue list" where
  "star = [exIssue ''hub'' StatusOpen [], exIssue ''s1'' StatusOpen [''hub''],
           exIssue ''s2'' StatusOpen [''hub''], exIssue ''s3'' StatusOpen [''hub'', ''s1'']]"

section \<open>Cycle-break suggestions (pkg/analysis/advanced_insights.go)\<close>

text \<open>
  Counts, lengths and cycle indices are \<open>nat\<close>: the code computes them with \<open>len\<close> and
  \<open>range\<close>. The limit is an \<open>int\<close> of the configuration and may be negative.
\<close>

record FeatureStatus =
  State :: string
  Reason :: string
  Capped :: bool
  Count :: nat
  Limited :: nat

record CycleBreakItem =
  EdgeFrom :: string
  EdgeTo :: string
  Impact :: nat
  Collateral :: nat
  InCycles :: "nat list"
  Rationale :: string

record CycleBreakResult =
  cb_Status :: FeatureStatus
  Suggestions :: "CycleBreakItem list"
  CycleCount :: nat
  HowToUse :: string
  Advisory :: string

text \<open>\<open>edgeKey\<close> is the struct \<open>{from, to}\<close>; \<open>edgeRank\<close> carries a key, its cycles and their number.\<close>

type_synonym edgeKey = "string \<times> string"

record edgeRank =
  r_key :: edgeKey
  r_cycles :: "nat list"
  r_count :: nat

text \<open>
  \<open>edgeFreq\<close> is a Go map from edges to cycle indices, held as the list of its entries,
  a new key going to the end. \<open>appendIndex m k i\<close> is \<open>m[k] = append(m[k], i)\<close>.
\<close>

fun appendIndex :: "(edgeKey \<times> nat list) list \<Rightarrow> edgeKey \<Rightarrow> nat \<Rightarrow> (edgeKey \<times> nat list) list" where
  "appendIndex [] k i = [(k, [i])]"
| "appendIndex ((k', cycs) # m) k i =
     (if k' = k then (k', cycs @ [i]) # m else (k', cycs) # appendIndex m k i)"

text \<open>The body of the loop over the cycles, for the cycle of index \<open>i\<close>.\<close>

definition addCycle :: "(edgeKey \<times> nat list) list \<Rightarrow> nat \<Rightarrow> string list \<Rightarrow>
    (edgeKey \<times> nat list) list" where
  "addCycle edgeFreq i cycle =
     (if length cycle < 2 then edgeFreq
      else if cycle ! 0 = ''CYCLE_DETECTION_TIMEOUT'' \<or> cycle ! 0 = ''...'' then edgeFreq
      else let edgeFreq = foldl (\<lambda>m j. appendIndex m (cycle ! j, cycle ! (j + 1)) i)
                            edgeFreq [0..<length cycle - 1]
           in appendIndex edgeFreq (cycle ! (length cycle - 1), cycle ! 0) i)"

definition buildEdgeFreq :: "string list list \<Rightarrow> (edgeKey \<times> nat list) list" where
  "buildEdgeFreq cycles =
     foldl (\<lambda>m i. addCycle m i (cycles ! i)) [] [0..<length cycles]"

definition rankLess :: "edgeRank \<Rightarrow> edgeRank \<Rightarrow> bool" where
  "rankLess ri rj =
     (if r_count ri \<noteq> r_count rj then r_count ri > r_count rj
      else if fst (r_key ri) \<noteq> fst (r_key rj) then fst (r_key ri) < fst (r_key rj)
      else snd (r_key ri) < snd (r_key rj))"

text \<open>
  \<open>countDependents\<close>: the number of nodes the iterator \<open>g.To\<close> yields for the node of the
  issue, 0 for an ID that has no node.
\<close>

definition countDependents :: "Analyzer \<Rightarrow> string \<Rightarrow> nat" where
  "countDependents a issueID =
     (case idToNode a issueID of None \<Rightarrow> 0 | Some nodeID \<Rightarrow> length (g_To a nodeID))"

definition mkItem :: "Analyzer \<Rightarrow> edgeRank \<Rightarrow> CycleBreakItem" where
  "mkItem a r = \<lparr>EdgeFrom = fst (r_key r), EdgeTo = snd (r_key r), Impact = r_count r,
     Collateral = countDependents a (snd (r_key r)), InCycles = r_cycles r,
     Rationale = ''Appears in most cycles; removing minimizes structural damage.''\<rparr>"

text \<open>The loop \<open>for i, r := range ranked\<close> with its \<open>break\<close> at \<open>i >= limit\<close>.\<close>

fun suggestLoop :: "Analyzer \<Rightarrow> int \<Rightarrow> edgeRank list \<Rightarrow> nat \<Rightarrow> CycleBreakItem list \<Rightarrow>
    CycleBreakItem list" where
  "suggestLoop a limit [] i suggestions = suggestions"
| "suggestLoop a limit (r # ranked) i suggestions =
     (if int i \<ge> limit then suggestions
      else suggestLoop a limit ranked (i + 1) (suggestions @ [mkItem a r]))"

definition cycleBreakHint :: string where
  "cycleBreakHint = ''Structural fix suggestions. Apply BEFORE working on cycle members.''"

text \<open>
  \<open>make([]CycleBreakItem, 0, n)\<close> at run time. The runtime panics (\<open>makeslice: cap out of
  range\<close>) when \<open>n\<close> is negative or when \<open>n\<close> items take more than \<open>maxAlloc\<close> bytes, the most it
  allocates at once; and the program ends (\<open>fatal error: out of memory\<close>) when the
  system does not have the memory asked for. An item takes \<open>itemSize\<close> bytes: 88 where
  ints and pointers have 64 bits (three strings of 16 bytes, two ints of 8 and a slice
  header of 24).
\<close>

record Runtime =
  itemSize :: int
  maxAlloc :: int
  memAvail :: int

datatype abort = MakeSliceCapOutOfRange | OutOfMemory

definition makeSlice :: "Runtime \<Rightarrow> int \<Rightarrow> abort + CycleBreakItem list" where
  "makeSlice rt n =
     (if n < 0 \<or> itemSize rt * n > maxAlloc rt then Inl MakeSliceCapOutOfRange
      else if itemSize rt * n > memAvail rt then Inl OutOfMemory
      else Inr [])"

text \<open>
  \<open>cycles\<close> is what \<open>stats.Cycles()\<close> returned once phase 2 was done; the cycle detection is
  not in the files at hand. \<open>ranked\<close> is filled by a \<open>range\<close> over the map \<open>edgeFreq\<close>, in no
  fixed order, then sorted. The function returns only when \<open>make\<close> did. The advisory text
  is written as the bytes of the source file.
\<close>

definition generateCycleBreakSuggestions ::
    "Runtime \<Rightarrow> Analyzer \<Rightarrow> string list list \<Rightarrow> int \<Rightarrow> abort + CycleBreakResult" where
  "generateCycleBreakSuggestions rt a cycles limit =
     (if length cycles = 0
      then Inr \<lparr>cb_Status = \<lparr>State = ''available'', Reason = [], Capped = False, Count = 0,
                   Limited = 0\<rparr>,
                 Suggestions = [], CycleCount = 0, HowToUse = cycleBreakHint,
                 Advisory = ''No cycles detected - dependency graph is a proper DAG.''\<rparr>
      else let edgeFreq = buildEdgeFreq cycles;
               ranked = sortSlice rankLess
                 (map (\<lambda>(k, cycs). \<lparr>r_key = k, r_cycles = cycs, r_count = length cycs\<rparr>)
                    edgeFreq)
           in case makeSlice rt limit of
                Inl e \<Rightarrow> Inl e
              | Inr made \<Rightarrow>
                  let suggestions = suggestLoop a limit ranked 0 made
                  in Inr \<lparr>cb_Status = \<lparr>State = ''available'', Reason = [],
                              Capped = (int (length ranked) > limit),
                              Count = length suggestions, Limited = length ranked\<rparr>,
                            Suggestions = suggestions, CycleCount = length cycles,
                            HowToUse = cycleBreakHint,
                            Advisory = ''Structural fix'' @
                              [CHR 0xC3, CHR 0xA2, CHR 0xE2, CHR 0x82, CHR 0xAC, CHR 0xE2,
                               CHR 0x80, CHR 0x9D] @
                              ''apply cycle breaks BEFORE executing dependents.''\<rparr>)"

text \<open>
  A 64-bit Linux: items of 88 bytes, \<open>maxAlloc\<close> of \<open>2^48\<close> bytes, and 8 GiB to be had.
\<close>

definition linux64 :: Runtime where
  "linux64 = \<lparr>itemSize = 88, maxAlloc = 2 ^ 48, memAvail = 2 ^ 33\<rparr>"

text \<open>Three cycles through \<open>a\<close>, a sentinel entry and the graph they come from.\<close>

definition exCycles :: "string list list" where
  "exCycles = [[''a'', ''b''], [''a'', ''b'', ''c''], [''...''], [''c'', ''a'', ''d'']]"

definition exGraph :: Analyzer where
  "exGraph = \<lparr>issueMap = [],
     idToNode = [''a'' \<mapsto> 0, ''b'' \<mapsto> 1, ''c'' \<mapsto> 2, ''d'' \<mapsto> 3],
     g_To = (\<lambda>n. if n = 0 then [1, 2] else if n = 1 then [0] else if n = 2 then [1, 3]
                  else if n = 3 then [0] else [])\<rparr>"

text \<open>
  The edges of a cycle entry: its consecutive pairs, the pair from the last node back to
  the first included. An entry is skipped when it has fewer than 2 nodes or starts with a
  sentinel marker; \<open>countedEdges\<close> are the edges of an entry that is not skipped.
\<close>

definition cyclePairs :: "string list \<Rightarrow> edgeKey list" where
  "cyclePairs cycle =
     map (\<lambda>j. (cycle ! j, cycle ! ((j + 1) mod length cycle))) [0..<length cycle]"

definition isMarker :: "string \<Rightarrow> bool" where
  "isMarker s \<longleftrightarrow> s = ''CYCLE_DETECTION_TIMEOUT'' \<or> s = ''...''"

definition skipped :: "string list \<Rightarrow> bool" where
  "skipped cycle \<longleftrightarrow> length cycle < 2 \<or> isMarker (hd cycle)"

definition countedEdges :: "string list \<Rightarrow> edgeKey list" where
  "countedEdges cycle = (if skipped cycle then [] else cyclePairs cycle)"

definition indexedEdges :: "string list list \<Rightarrow> nat list \<Rightarrow> (edgeKey \<times> nat) list" where
  "indexedEdges cycles ixs =
     concat (map (\<lambda>i. map (\<lambda>k. (k, i)) (countedEdges (cycles ! i))) ixs)"

definition indicesOf :: "(edgeKey \<times> nat) list \<Rightarrow> edgeKey \<Rightarrow> nat list" where
  "indicesOf ps k = map snd (filter (\<lambda>p. fst p = k) ps)"

text \<open>
  \<open>occurrences cycles e\<close>: the indices of the counted entries in which the edge \<open>e\<close> occurs,
  ascending, an index standing once for each occurrence. \<open>breakEdges\<close> are the edges that
  occur at all.
\<close>

definition occurrences :: "string list list \<Rightarrow> edgeKey \<Rightarrow> nat list" where
  "occurrences cycles e = indicesOf (indexedEdges cycles [0..<length cycles]) e"

definition breakEdges :: "string list list \<Rightarrow> edgeKey set" where
  "breakEdges cycles = (\<Union>c \<in> set cycles. set (countedEdges c))"

definition rankOf :: "string list list \<Rightarrow> edgeKey \<Rightarrow> edgeRank" where
  "rankOf cycles e = \<lparr>r_key = e, r_cycles = occurrences cycles e,
     r_count = length (occurrences cycles e)\<rparr>"

text \<open>The comparison of the ranking is the lexicographic order of this key.\<close>

definition rankKey :: "edgeRank \<Rightarrow> int \<times> string \<times> string" where
  "rankKey r = (- int (r_count r), fst (r_key r), snd (r_key r))"

text \<open>
  \<open>cyclesContaining cycles e\<close>: the indices of the counted cycles that contain the edge \<open>e\<close>.
  \<open>edgeBefore\<close>: the order of the ranking, by number of cycles containing the edge
  descending, then source ID ascending, then target ID ascending.
\<close>

definition cyclesContaining :: "string list list \<Rightarrow> edgeKey \<Rightarrow> nat list" where
  "cyclesContaining cycles e =
     filter (\<lambda>i. e \<in> set (countedEdges (cycles ! i))) [0..<length cycles]"

definition edgeBefore :: "string list list \<Rightarrow> edgeKey \<Rightarrow> edgeKey \<Rightarrow> bool" where
  "edgeBefore cycles e1 e2 =
     (length (cyclesContaining cycles e1) > length (cyclesContaining cycles e2) \<or>
      length (cyclesContaining cycles e1) = length (cyclesContaining cycles e2) \<and>
        (fst e1 < fst e2 \<or> fst e1 = fst e2 \<and> snd e1 < snd e2))"

text \<open>What \<open>generateCycleBreakSuggestions\<close> returns for the example cycles and limit 2.\<close>

definition exResult :: CycleBreakResult where
  "exResult =
     \<lparr>cb_Status = \<lparr>State = ''available'', Reason = [], Capped = True, Count = 2, Limited = 6\<rparr>,
      Suggestions =
        [\<lparr>EdgeFrom = ''a'', EdgeTo = ''b'', Impact = 2, Collateral = 1, InCycles = [0, 1],
           Rationale = ''Appears in most cycles; removing minimizes structural damage.''\<rparr>,
         \<lparr>EdgeFrom = ''c'', EdgeTo = ''a'', Impact = 2, Collateral = 2, InCycles = [1, 3],
           Rationale = ''Appears in most cycles; removing minimizes structural damage.''\<rparr>],
      CycleCount = 4, HowToUse = cycleBreakHint,
      Advisory = ''Structural fix'' @
        [CHR 0xC3, CHR 0xA2, CHR 0xE2, CHR 0x82, CHR 0xAC, CHR 0xE2, CHR 0x80, CHR 0x9D] @
        ''apply cycle breaks BEFORE executing dependents.''\<rparr>"

text \<open>What it returns when there is no cycle, whatever the limit.\<close>

definition exNoCycles :: CycleBreakResult where
  "exNoCycles =
     \<lparr>cb_Status = \<lparr>State = ''available'', Reason = [], Capped = False, Count = 0, Limited = 0\<rparr>,
      Suggestions = [], CycleCount = 0, HowToUse = cycleBreakHint,
      Advisory = ''No cycles detected - dependency graph is a proper DAG.''\<rparr>"

text \<open>Replacing the skipped entries of a list of cycles by empty entries.\<close>

definition blankSkipped :: "string list list \<Rightarrow> string list list" where
  "blankSkipped cycles = map (\<lambda>c. if skipped c then [] else c) cycles"

section \<open>The instance lock (pkg/instance/lock.go)\<close>

subsection \<open>Files\<close>

text \<open>
  A lock file holds the JSON of a \<open>LockInfo\<close>, or bytes that \<open>json.Unmarshal\<close> refuses (an
  empty file, for one). The file system maps a path to a file, and a file to its content,
  so that a file that was renamed over or removed is still what an open handle writes to.
  System calls fail here only for what the file system holds (a path that exists for an
  exclusive create, a path that is missing for a read or a rename): failures of the disk or
  of permissions are not modelled.
\<close>

record LockInfo =
  PID :: int
  StartedAt :: nat
  Hostname :: string

datatype content = NotJSON | Info LockInfo

record FileSys =
  names :: "string \<rightharpoonup> nat"
  contents :: "nat \<Rightarrow> content"
  fresh :: nat

text \<open>\<open>os.OpenFile(p, O_CREATE|O_WRONLY|O_EXCL)\<close>: \<open>None\<close> when the path exists.\<close>

definition openExcl :: "FileSys \<Rightarrow> string \<Rightarrow> (FileSys \<times> nat) option" where
  "openExcl fs p =
     (case names fs p of
        Some f \<Rightarrow> None
      | None \<Rightarrow> Some (fs\<lparr>names := (names fs)(p \<mapsto> fresh fs),
                          contents := (contents fs)(fresh fs := NotJSON),
                          fresh := fresh fs + 1\<rparr>, fresh fs))"

text \<open>\<open>os.OpenFile(p, O_CREATE|O_WRONLY|O_TRUNC)\<close>: the file of the path, emptied, or a new one.\<close>

definition openTrunc :: "FileSys \<Rightarrow> string \<Rightarrow> FileSys \<times> nat" where
  "openTrunc fs p =
     (case names fs p of
        Some f \<Rightarrow> (fs\<lparr>contents := (contents fs)(f := NotJSON)\<rparr>, f)
      | None \<Rightarrow> (fs\<lparr>names := (names fs)(p \<mapsto> fresh fs),
                     contents := (contents fs)(fresh fs := NotJSON),
                     fresh := fresh fs + 1\<rparr>, fresh fs))"

definition writeFile :: "FileSys \<Rightarrow> nat \<Rightarrow> content \<Rightarrow> FileSys" where
  "writeFile fs f c = fs\<lparr>contents := (contents fs)(f := c)\<rparr>"

text \<open>\<open>readLockFile\<close>: \<open>None\<close> when the file is missing or does not parse.\<close>

definition readLockFile :: "FileSys \<Rightarrow> string \<Rightarrow> LockInfo option" where
  "readLockFile fs p =
     (case names fs p of
        None \<Rightarrow> None
      | Some f \<Rightarrow> (case contents fs f of NotJSON \<Rightarrow> None | Info info \<Rightarrow> Some info))"

definition removeFile :: "FileSys \<Rightarrow> string \<Rightarrow> FileSys" where
  "removeFile fs p = fs\<lparr>names := (names fs)(p := None)\<rparr>"

text \<open>\<open>os.Rename(src, dst)\<close> on Unix: \<open>dst\<close> is replaced in one step; \<open>None\<close> when \<open>src\<close> is missing.\<close>

definition renameFile :: "FileSys \<Rightarrow> string \<Rightarrow> string \<Rightarrow> FileSys option" where
  "renameFile fs src dst =
     (case names fs src of
        None \<Rightarrow> None
      | Some f \<Rightarrow> Some (fs\<lparr>names := (names fs)(src := None, dst \<mapsto> f)\<rparr>))"

subsection \<open>Processes\<close>

text \<open>
  \<open>isProcessAlive\<close> (the Unix implementation, given with the earlier copy of the package
  among the sources): a PID that is not positive is never alive; \<open>running\<close> is the set of
  PIDs that answer signal 0.
\<close>

definition isProcessAlive :: "int set \<Rightarrow> int \<Rightarrow> bool" where
  "isProcessAlive running p = (if p \<le> 0 then False else p \<in> running)"

record Lock =
  path :: string
  lockFile :: "nat option"
  pid :: int
  isFirst :: bool

text \<open>
  Where a process stands in \<open>NewLock\<close> and in the \<open>checkStale\<close> it calls: before each of the
  system calls, or returned. Between two system calls of one process, others may run.
\<close>

datatype position = AtOpenExcl | AtWriteLockInfo | AtReadExisting | AtReRead | AtIsAlive
  | AtCreateTmp | AtRename | AtVerify | Returned

text \<open>
  A process in \<open>NewLock\<close>: \<open>self\<close> is \<open>os.Getpid()\<close>, \<open>started\<close> and \<open>host\<close> what \<open>time.Now()\<close> and
  \<open>os.Hostname()\<close> give it, \<open>currentPID\<close> the local variable of \<open>checkStale\<close>.
\<close>

record Proc =
  pos :: position
  lock :: Lock
  self :: int
  started :: nat
  host :: string
  currentPID :: int

definition ownInfo :: "Proc \<Rightarrow> LockInfo" where
  "ownInfo p = \<lparr>PID = self p, StartedAt = started p, Hostname = host p\<rparr>"

text \<open>\<open>fmt.Sprintf("%d", n)\<close>.\<close>

fun decimal :: "nat \<Rightarrow> string" where
  "decimal n =
     (if n < 10 then [char_of (48 + n)] else decimal (n div 10) @ [char_of (48 + n mod 10)])"

definition showInt :: "int \<Rightarrow> string" where
  "showInt i = (if i < 0 then CHR ''-'' # decimal (nat (- i)) else decimal (nat i))"

definition tmpPath :: "Proc \<Rightarrow> string" where
  "tmpPath p = path (lock p) @ ''.'' @ showInt (self p)"

definition LockFileName :: string where
  "LockFileName = ''.bv.lock''"

text \<open>\<open>filepath.Join(beadsDir, LockFileName)\<close>, for a clean directory path.\<close>

definition lockPathOf :: "string \<Rightarrow> string" where
  "lockPathOf beadsDir = beadsDir @ ''/'' @ LockFileName"

definition startNewLock :: "string \<Rightarrow> int \<Rightarrow> nat \<Rightarrow> string \<Rightarrow> Proc" where
  "startNewLock beadsDir me now hostname =
     \<lparr>pos = AtOpenExcl,
      lock = \<lparr>path = lockPathOf beadsDir, lockFile = None, pid = 0, isFirst = False\<rparr>,
      self = me, started = now, host = hostname, currentPID = 0\<rparr>"

text \<open>
  One system call of a process in \<open>NewLock\<close>, with what follows it up to the next system call.
  \<^item> \<open>AtOpenExcl\<close>: the exclusive create of \<open>NewLock\<close>. On success the process holds the lock
    and goes on to write its info; when the file exists it goes on to read it.
  \<^item> \<open>AtWriteLockInfo\<close>: \<open>writeLockInfo\<close>, through the open handle.
  \<^item> \<open>AtReadExisting\<close>: the \<open>readLockFile\<close> of \<open>NewLock\<close>, then the call of \<open>checkStale\<close>.
  \<^item> \<open>AtReRead\<close>: the \<open>readLockFile\<close> of \<open>checkStale\<close>; it returns when the read fails.
  \<^item> \<open>AtIsAlive\<close>: \<open>isProcessAlive(currentPID)\<close>; a live holder is recorded and nothing is
    taken over.
  \<^item> \<open>AtCreateTmp\<close>: the temporary file is created and the own info written to it.
  \<^item> \<open>AtRename\<close>: the rename over the lock file; when it fails the temporary file is
    removed.
  \<^item> \<open>AtVerify\<close>: the lock file is read again; the process claims the lock only when it
    reads its own PID.
\<close>

definition step :: "int set \<Rightarrow> FileSys \<times> Proc \<Rightarrow> FileSys \<times> Proc" where
  "step running s =
     (let fs = fst s; p = snd s; l = lock p in
      case pos p of
        AtOpenExcl \<Rightarrow>
          (case openExcl fs (path l) of
             Some (fs', f) \<Rightarrow>
               (fs', p\<lparr>lock := l\<lparr>lockFile := Some f, isFirst := True, pid := self p\<rparr>,
                       pos := AtWriteLockInfo\<rparr>)
           | None \<Rightarrow> (fs, p\<lparr>pos := AtReadExisting\<rparr>))
      | AtWriteLockInfo \<Rightarrow>
          (case lockFile l of
             None \<Rightarrow> (fs, p\<lparr>pos := Returned\<rparr>)
           | Some f \<Rightarrow> (writeFile fs f (Info (ownInfo p)), p\<lparr>pos := Returned\<rparr>))
      | AtReadExisting \<Rightarrow>
          (case readLockFile fs (path l) of
             Some existing \<Rightarrow> (fs, p\<lparr>lock := l\<lparr>pid := PID existing\<rparr>, pos := AtReRead\<rparr>)
           | None \<Rightarrow> (fs, p\<lparr>pos := AtReRead\<rparr>))
      | AtReRead \<Rightarrow>
          (case readLockFile fs (path l) of
             None \<Rightarrow> (fs, p\<lparr>pos := Returned\<rparr>)
           | Some existing \<Rightarrow> (fs, p\<lparr>currentPID := PID existing, pos := AtIsAlive\<rparr>))
      | AtIsAlive \<Rightarrow>
          (if isProcessAlive running (currentPID p)
           then (fs, p\<lparr>lock := l\<lparr>pid := currentPID p\<rparr>, pos := Returned\<rparr>)
           else (fs, p\<lparr>pos := AtCreateTmp\<rparr>))
      | AtCreateTmp \<Rightarrow>
          (let (fs', f) = openTrunc fs (tmpPath p)
           in (writeFile fs' f (Info (ownInfo p)), p\<lparr>pos := AtRename\<rparr>))
      | AtRename \<Rightarrow>
          (case renameFile fs (tmpPath p) (path l) of
             None \<Rightarrow> (removeFile fs (tmpPath p), p\<lparr>pos := Returned\<rparr>)
           | Some fs' \<Rightarrow> (fs', p\<lparr>pos := AtVerify\<rparr>))
      | AtVerify \<Rightarrow>
          (case readLockFile fs (path l) of
             None \<Rightarrow> (fs, p\<lparr>pos := Returned\<rparr>)
           | Some verifyInfo \<Rightarrow>
               if PID verifyInfo \<noteq> self p then (fs, p\<lparr>pos := Returned\<rparr>)
               else (fs, p\<lparr>lock := l\<lparr>isFirst := True, pid := self p\<rparr>, pos := Returned\<rparr>))
      | Returned \<Rightarrow> (fs, p))"

text \<open>
  \<open>NewLock\<close> run alone: no path through it makes more than 7 system calls.
\<close>

definition NewLock :: "int set \<Rightarrow> FileSys \<Rightarrow> string \<Rightarrow> int \<Rightarrow> nat \<Rightarrow> string \<Rightarrow> FileSys \<times> Proc" where
  "NewLock running fs beadsDir me now hostname =
     ((step running) ^^ 7) (fs, startNewLock beadsDir me now hostname)"

text \<open>
  Two processes in \<open>NewLock\<close> on one file system. A schedule says which of them makes the
  next system call: \<open>False\<close> the first, \<open>True\<close> the second.
\<close>

fun runSchedule :: "int set \<Rightarrow> bool list \<Rightarrow> FileSys \<times> Proc \<times> Proc \<Rightarrow> FileSys \<times> Proc \<times> Proc" where
  "runSchedule running [] s = s"
| "runSchedule running (second # sched) (fs, p1, p2) =
     (if second
      then (let (fs', p2') = step running (fs, p2) in runSchedule running sched (fs', p1, p2'))
      else (let (fs', p1') = step running (fs, p1) in runSchedule running sched (fs', p1', p2)))"

text \<open>
  A beads directory whose lock file names the holder 999, and the processes 101 and 202; the
  process 999 is gone.
\<close>

definition staleFS :: FileSys where
  "staleFS = \<lparr>names = [lockPathOf ''.beads'' \<mapsto> 0],
     contents = (\<lambda>f. if f = 0 then Info \<lparr>PID = 999, StartedAt = 5, Hostname = ''h''\<rparr> else NotJSON),
     fresh = 1\<rparr>"

definition exRunning :: "int set" where
  "exRunning = {101, 202}"

definition raceSchedule :: "bool list" where
  "raceSchedule = [True, True, True, True,
                   False, False, False, False, False, False, False,
                   True, True, True]"

definition raceEnd :: "FileSys \<times> Proc \<times> Proc" where
  "raceEnd = runSchedule exRunning raceSchedule
     (staleFS, startNewLock ''.beads'' 101 10 ''h'', startNewLock ''.beads'' 202 11 ''h'')"

text \<open>
  The earlier \<open>checkStale\<close>, of the second copy of the package among the sources: without
  temporary file, the stale lock file is removed and created anew with an exclusive
  create. It is given here as called at the end of \<open>NewLock\<close>, run without interference.
\<close>

definition checkStaleOld :: "int set \<Rightarrow> int \<Rightarrow> nat \<Rightarrow> string \<Rightarrow> FileSys \<times> Lock \<Rightarrow> FileSys \<times> Lock" where
  "checkStaleOld running me now hostname s =
     (let fs = fst s; l = snd s in
      if isFirst l \<or> pid l = 0 then (fs, l)
      else if \<not> isProcessAlive running (pid l)
      then (let fs = removeFile fs (path l) in
            case openExcl fs (path l) of
              Some (fs', f) \<Rightarrow>
                (writeFile fs' f (Info \<lparr>PID = me, StartedAt = now, Hostname = hostname\<rparr>),
                 l\<lparr>lockFile := Some f, isFirst := True, pid := me\<rparr>)
            | None \<Rightarrow> (fs, l))
      else (fs, l))"

section \<open>The triage of the specification\<close>

text \<open>
  \<open>ComputeTriage\<close> and the analyses it calls are not in the files at hand: only its tests
  are. What follows is modelled from sections 3, 4.2, 4.4, 4.6 and 7 of the specification,
  and from the fields the tests read.
\<close>

text \<open>
  Modelled from the spec: the blocking edges out of an issue (section 3): the targets of
  its dependencies of kind blocks, unknown targets dropped, self-loops rejected, parallel
  edges collapsed.
\<close>

definition blockers :: "Issue list \<Rightarrow> Issue \<Rightarrow> string list" where
  "blockers issues a =
     remdups (filter (\<lambda>b. b \<noteq> ID a \<and> b \<in> ID ` set issues)
       (map DependsOnID (filter (\<lambda>d. Type d = DepBlocks) (Dependencies a))))"

text \<open>
  Modelled from the spec: \<open>ActionableSet\<close> (section 4.2): the issues that are open or in
  progress and whose every blocking dependency has a closed target, in input order.
\<close>

definition ActionableSet :: "Issue list \<Rightarrow> Issue list" where
  "ActionableSet issues =
     filter (\<lambda>i. (Status i = StatusOpen \<or> Status i = StatusInProgress) \<and>
                 (\<forall>b \<in> set (blockers issues i). statusOf issues b = Some StatusClosed))
       issues"

text \<open>
  Modelled from the spec: the simple cycles of the graph (section 4.3), each once, from its
  first node in input order. \<open>cyclePaths issues s allowed trail\<close> extends the path (held in
  reverse) along blocking edges through nodes of \<open>allowed\<close> not yet on it, and yields the
  path when an edge leads back to the start \<open>s\<close>.
\<close>

definition blockersOfID :: "Issue list \<Rightarrow> string \<Rightarrow> string list" where
  "blockersOfID issues x =
     (case find (\<lambda>i. ID i = x) issues of None \<Rightarrow> [] | Some i \<Rightarrow> blockers issues i)"

function cyclePaths :: "Issue list \<Rightarrow> string \<Rightarrow> string list \<Rightarrow> string list \<Rightarrow> string list list" where
  "cyclePaths issues s allowed trail =
     concat (map (\<lambda>n. if n = s then [rev trail]
                       else if n \<in> set allowed \<and> n \<notin> set trail
                       then cyclePaths issues s allowed (n # trail)
                       else [])
                 (blockersOfID issues (hd trail)))"
  by pat_completeness auto

termination
proof (relation "measure (\<lambda>(issues, s, allowed, trail). card (set allowed - set trail))", goal_cases)
  case 1
  then show ?case by simp
next
  case (2 issues s allowed trail n)
  then have "set allowed - set (n # trail) \<subset> set allowed - set trail" by auto
  then have "card (set allowed - set (n # trail)) < card (set allowed - set trail)"
    by (intro psubset_card_mono) auto
  then show ?case by simp
qed

text \<open>
  Modelled from the spec: the cycles reported, at most \<open>cap\<close> of them (50 by default),
  further cycles standing as the one sentinel entry \<open>...\<close>.
\<close>

definition detectCycles :: "nat \<Rightarrow> Issue list \<Rightarrow> string list list" where
  "detectCycles cap issues =
     (let ids = remdups (map ID issues);
          found = concat (map (\<lambda>k. cyclePaths issues (ids ! k) (drop (Suc k) ids) [ids ! k])
                            [0..<length ids])
      in if length found > cap then take cap found @ [[''...'']] else found)"

text \<open>
  Modelled from the spec: the ranking of \<open>TopRecommendations\<close> (section 4.4): by score
  descending, ties broken by priority ascending, then \<open>updatedAt\<close> descending, then ID
  ascending. The impact score of an issue comes from the floating-point metrics of phase 2,
  which are not modelled: \<open>score\<close> is a parameter.
\<close>

definition recommendationKey :: "(Issue \<Rightarrow> real) \<Rightarrow> Issue \<Rightarrow> real \<times> int \<times> int \<times> string" where
  "recommendationKey score i = (- score i, i_Priority i, - UpdatedAt i, ID i)"

definition TopRecommendations :: "(Issue \<Rightarrow> real) \<Rightarrow> Issue list \<Rightarrow> nat \<Rightarrow> Issue list" where
  "TopRecommendations score issues n =
     take (min n 10)
       (sort_key (recommendationKey score) (filter (\<lambda>i. Status i \<noteq> StatusClosed) issues))"

text \<open>
  Modelled from the spec: \<open>QuickWins\<close> (section 4.4): the actionable issues with a small
  estimate (at most one day, or unknown for a leaf), ranked by score.
\<close>

definition QuickWinsOf :: "(Issue \<Rightarrow> real) \<Rightarrow> Issue list \<Rightarrow> nat \<Rightarrow> Issue list" where
  "QuickWinsOf score issues n =
     take n (sort_key (recommendationKey score)
       (filter (\<lambda>i. case EstimateDays i of Some d \<Rightarrow> d \<le> 1 | None \<Rightarrow> blockers issues i = [])
          (ActionableSet issues)))"

text \<open>
  Modelled from the spec: \<open>BlockersToClear\<close> (section 4.4): the non-closed issues that
  unblock some open issue, ranked by the count of open issues they unblock transitively,
  then by ID.
\<close>

definition unblocksCount :: "Issue list \<Rightarrow> string \<Rightarrow> nat" where
  "unblocksCount issues x = length (openIDs issues (tl (reverseBFS issues [x] [x])))"

record Blocker =
  b_ID :: string
  UnblocksCount :: nat

definition BlockersToClearOf :: "Issue list \<Rightarrow> nat \<Rightarrow> Blocker list" where
  "BlockersToClearOf issues n =
     take n (sort_key (\<lambda>b. (- int (UnblocksCount b), b_ID b))
       (filter (\<lambda>b. UnblocksCount b > 0)
          (map (\<lambda>i. \<lparr>b_ID = ID i, UnblocksCount = unblocksCount issues (ID i)\<rparr>)
             (filter (\<lambda>i. Status i \<noteq> StatusClosed) issues))))"

text \<open>Modelled from the spec: the shape of a triage result (section 4.6) and its options.\<close>

record QuickRef =
  OpenCount :: nat
  ActionableCount :: nat
  BlockedCount :: nat
  TopPicks :: "string list"

record HealthCounts =
  Total :: nat
  Open :: nat
  Closed :: nat
  Blocked :: nat
  Actionable :: nat
  ByType :: "IssueType \<Rightarrow> nat"
  ByStatus :: "Status \<Rightarrow> nat"
  ByPriority :: "int \<Rightarrow> nat"

record GraphHealth =
  NodeCount :: nat
  EdgeCount :: nat
  Density :: real
  HasCycles :: bool
  gh_CycleCount :: nat

record CommandHelpers =
  ListReady :: string
  ClaimTop :: string
  ShowTop :: string

record TriageResult =
  tr_QuickRef :: QuickRef
  Recommendations :: "Issue list"
  QuickWins :: "Issue list"
  BlockersToClear :: "Blocker list"
  Counts :: HealthCounts
  Graph :: GraphHealth
  Commands :: CommandHelpers

record TriageOptions =
  TopN :: nat
  QuickWinN :: nat
  BlockerN :: nat

text \<open>Modelled from the spec: the caps of section 4.6, which stand unless overridden.\<close>

definition withDefaults :: "TriageOptions \<Rightarrow> TriageOptions" where
  "withDefaults opts =
     \<lparr>TopN = (if TopN opts = 0 then 10 else TopN opts),
      QuickWinN = (if QuickWinN opts = 0 then 5 else QuickWinN opts),
      BlockerN = (if BlockerN opts = 0 then 5 else BlockerN opts)\<rparr>"

text \<open>
  Modelled from the spec: the commands. The command that claims the top recommendation
  names its ID; without a recommendation it is a fallback message, whose text the
  specification does not give: \<open>fallback\<close> is a parameter.
\<close>

definition claimCommand :: "string \<Rightarrow> string" where
  "claimCommand i = ''bd update '' @ i @ '' --status=in_progress''"

definition showCommand :: "string \<Rightarrow> string" where
  "showCommand i = ''bd show '' @ i"

definition buildCommands :: "string \<Rightarrow> Issue list \<Rightarrow> CommandHelpers" where
  "buildCommands fallback recommendations =
     (case recommendations of
        [] \<Rightarrow> \<lparr>ListReady = ''bd ready'', ClaimTop = fallback, ShowTop = fallback\<rparr>
      | pick # rest \<Rightarrow> \<lparr>ListReady = ''bd ready'', ClaimTop = claimCommand (ID pick),
                         ShowTop = showCommand (ID pick)\<rparr>)"

text \<open>
  Modelled from the spec: the density of section 4.2, \<open>|E| / (|N| (|N| - 1))\<close>, zero for fewer
  than two nodes, where the quotient is undefined and the result shape is zero-filled.
\<close>

definition density :: "nat \<Rightarrow> nat \<Rightarrow> real" where
  "density n e = (if n < 2 then 0 else real e / (real n * (real n - 1)))"

datatype EngineError = InvalidInput | InvariantViolation

text \<open>
  Modelled from the spec: \<open>ComputeTriage\<close> (sections 4.6 and 7). A priority outside 0..4 is
  an invalid input, surfaced before any work is done.
\<close>

definition ComputeTriageWithOptions ::
    "(Issue \<Rightarrow> real) \<Rightarrow> string \<Rightarrow> Issue list \<Rightarrow> TriageOptions \<Rightarrow> EngineError + TriageResult" where
  "ComputeTriageWithOptions score fallback issues options =
     (if \<exists>i \<in> set issues. i_Priority i < 0 \<or> 4 < i_Priority i then Inl InvalidInput
      else
        let opts = withDefaults options;
            recommendations = TopRecommendations score issues (TopN opts);
            actionable = ActionableSet issues;
            blocked = filter (\<lambda>i. Status i \<noteq> StatusClosed \<and>
                        (\<exists>b \<in> set (blockers issues i). statusOf issues b \<noteq> Some StatusClosed))
                        issues;
            cycles = detectCycles 50 issues;
            nodes = length (remdups (map ID issues));
            edges = sum_list (map (\<lambda>i. length (blockers issues i)) issues)
        in Inr \<lparr>tr_QuickRef =
                   \<lparr>OpenCount = length (filter (\<lambda>i. Status i = StatusOpen) issues),
                    ActionableCount = length actionable, BlockedCount = length blocked,
                    TopPicks = map ID (take 3 recommendations)\<rparr>,
                 Recommendations = recommendations,
                 QuickWins = QuickWinsOf score issues (QuickWinN opts),
                 BlockersToClear = BlockersToClearOf issues (BlockerN opts),
                 Counts =
                   \<lparr>Total = length issues,
                    Open = length (filter (\<lambda>i. Status i = StatusOpen) issues),
                    Closed = length (filter (\<lambda>i. Status i = StatusClosed) issues),
                    Blocked = length blocked, Actionable = length actionable,
                    ByType = (\<lambda>t. length (filter (\<lambda>i. IssueType i = t) issues)),
                    ByStatus = (\<lambda>s. length (filter (\<lambda>i. Status i = s) issues)),
                    ByPriority = (\<lambda>p. length (filter (\<lambda>i. i_Priority i = p) issues))\<rparr>,
                 Graph = \<lparr>NodeCount = nodes, EdgeCount = edges, Density = density nodes edges,
                           HasCycles = (cycles \<noteq> []), gh_CycleCount = length cycles\<rparr>,
                 Commands = buildCommands fallback recommendations\<rparr>)"

definition ComputeTriage :: "(Issue \<Rightarrow> real) \<Rightarrow> string \<Rightarrow> Issue list \<Rightarrow> EngineError + TriageResult" where
  "ComputeTriage score fallback issues =
     ComputeTriageWithOptions score fallback issues \<lparr>TopN = 0, QuickWinN = 0, BlockerN = 0\<rparr>"

text \<open>The scenarios A, B and C of the specification, every issue of priority 1.\<close>

definition scenarioB :: "Issue list" where
  "scenarioB = [(exIssue ''A'' StatusOpen [''B''])\<lparr>i_Priority := 1\<rparr>,
                (exIssue ''B'' StatusOpen [''A''])\<lparr>i_Priority := 1\<rparr>]"

definition scenarioC :: "Issue list" where
  "scenarioC = [exIssue ''root'' StatusClosed [], exIssue ''x'' StatusOpen [''root''],
                exIssue ''y'' StatusOpen [''x'']]"

section \<open>Properties of \<open>sortSlice\<close>\<close>

lemma mset_insertLeft: "mset (insertLeft lt x ps) = add_mset x (mset ps)"
  by (induction ps) auto

lemma mset_foldl_insertLeft:
  "mset (foldl (\<lambda>acc x. insertLeft lt x acc) acc xs) = mset acc + mset xs"
  by (induction xs arbitrary: acc) (auto simp: mset_insertLeft)

lemma mset_sortSlice: "mset (sortSlice lt xs) = mset xs"
  by (simp add: sortSlice_def mset_foldl_insertLeft)

lemma set_sortSlice: "set (sortSlice lt xs) = set xs"
  using mset_sortSlice [of lt xs] by (metis set_mset_mset)

lemma length_sortSlice: "length (sortSlice lt xs) = length xs"
  using mset_sortSlice [of lt xs] by (metis size_mset)

text \<open>
  When the comparison is that of a key in a linear order, the sorted prefix held in
  reverse stays in descending key order, so the result ascends.
\<close>

lemma set_insertLeft: "set (insertLeft lt x ps) = insert x (set ps)"
  by (induction ps) auto

lemma insertLeft_sorted:
  fixes key :: "'a \<Rightarrow> 'k::linorder"
  assumes "\<And>a b. lt a b \<longleftrightarrow> key a < key b"
    and "sorted (rev (map key ps))"
  shows "sorted (rev (map key (insertLeft lt x ps)))"
  using assms(2)
proof (induction ps)
  case Nil
  then show ?case by simp
next
  case (Cons p ps)
  show ?case
  proof (cases "lt x p")
    case True
    from Cons.prems have sp: "sorted (rev (map key ps))"
      and le: "\<forall>k\<in>set (map key ps). k \<le> key p"
      by (auto simp: sorted_append)
    from True have "key x \<le> key p" by (simp add: assms(1))
    with le have "\<forall>k\<in>set (map key (insertLeft lt x ps)). k \<le> key p"
      by (auto simp: set_insertLeft)
    with Cons.IH [OF sp] True show ?thesis
      by (auto simp: sorted_append)
  next
    case False
    then have "key p \<le> key x" by (simp add: assms(1))
    moreover from Cons.prems have "\<forall>k\<in>set (map key ps). k \<le> key p"
      by (auto simp: sorted_append)
    ultimately show ?thesis using Cons.prems False
      by (fastforce simp: sorted_append)
  qed
qed

lemma foldl_insertLeft_sorted:
  fixes key :: "'a \<Rightarrow> 'k::linorder"
  assumes "\<And>a b. lt a b \<longleftrightarrow> key a < key b"
    and "sorted (rev (map key acc))"
  shows "sorted (rev (map key (foldl (\<lambda>acc x. insertLeft lt x acc) acc xs)))"
  using assms(2)
proof (induction xs arbitrary: acc)
  case Nil
  then show ?case by simp
next
  case (Cons x xs)
  have "sorted (rev (map key (insertLeft lt x acc)))"
    by (rule insertLeft_sorted [OF assms(1) Cons.prems])
  from Cons.IH [OF this] show ?case by simp
qed

lemma sorted_sortSlice:
  fixes key :: "'a \<Rightarrow> 'k::linorder"
  assumes "\<And>a b. lt a b \<longleftrightarrow> key a < key b"
  shows "sorted (map key (sortSlice lt xs))"
proof -
  have "sorted (rev (map key (foldl (\<lambda>acc x. insertLeft lt x acc) [] xs)))"
    by (rule foldl_insertLeft_sorted [OF assms]) simp
  then show ?thesis by (simp add: sortSlice_def rev_map)
qed

section \<open>\<open>GenerateTopReasons\<close>\<close>

text \<open>The \<open>float64\<close> constants beside the decimals they are written as.\<close>

lemma f64_constants:
  "f64_0_7 < 0.7" "0.4 < f64_0_4" "0.2 < f64_0_2" "0.01 < f64_0_01"
  "0.7 - f64_0_7 < 1 / 10 ^ 16" "f64_0_4 - 0.4 < 1 / 10 ^ 16" "f64_0_2 - 0.2 < 1 / 10 ^ 16"
  "f64_0_01 - 0.01 < 1 / 10 ^ 16"
  by (simp_all add: f64_0_7_def f64_0_4_def f64_0_2_def f64_0_01_def)

text \<open>The loop keeps the first three factors of its input that are not negligible.\<close>

lemma topReasonsLoop_eq:
  "topReasonsLoop fs reasons =
     reasons @
     take (3 - length reasons) (map mkReason (filter (\<lambda>f. \<not> f_weight f < f64_0_01) fs))"
  by (induction fs arbitrary: reasons) (auto simp: take_Cons' numeral_3_eq_3 Suc_diff_Suc)

lemma GenerateTopReasons_eq:
  "GenerateTopReasons score =
     take 3 (map mkReason (filter (\<lambda>f. \<not> f_weight f < f64_0_01)
       (sortSlice factorLess (factors score))))"
  by (simp add: GenerateTopReasons_def topReasonsLoop_eq)

lemma factorLess_key: "factorLess a b \<longleftrightarrow> - f_weight a < - f_weight b"
  by (simp add: factorLess_def)

lemma sorted_factors:
  "sorted_wrt (\<lambda>a b. f_weight a \<ge> f_weight b) (sortSlice factorLess fs)"
  using sorted_sortSlice [of factorLess "\<lambda>f. - f_weight f" fs, OF factorLess_key]
  by (simp add: sorted_map sorted_wrt_iff_nth_less)

text \<open>
  Claim C9, the thresholds being the \<open>float64\<close> constants that the literals 0.7, 0.4, 0.2
  and 0.01 are in Go. \<open>GenerateTopReasons\<close> returns at most 3 reasons; every returned
  reason has weight at least 0.01 (the constant, hence also the decimal); the reasons are
  in non-increasing order of weight; and every reason is that of one of the eight factors
  of the score, its explanation being the factor's text prefixed with \<open>Very high: \<close> when
  the factor's normalized value exceeds 0.7, else with \<open>High: \<close> when it exceeds 0.4, else
  with \<open>Moderate: \<close> when it exceeds 0.2, and left without prefix otherwise.
\<close>

theorem GenerateTopReasons_props:
  "length (GenerateTopReasons score) \<le> 3 \<and>
   (\<forall>r \<in> set (GenerateTopReasons score). Weight r \<ge> f64_0_01 \<and> Weight r \<ge> 0.01) \<and>
   sorted_wrt (\<lambda>a b. Weight a \<ge> Weight b) (GenerateTopReasons score) \<and>
   (\<forall>r \<in> set (GenerateTopReasons score). \<exists>f \<in> set (factors score).
      Factor r = f_name f \<and> Weight r = f_weight f \<and> Emoji r = f_emoji f \<and>
      Explanation r =
        (if f_norm f > f64_0_7 then ''Very high: '' @ f_explanation f
         else if f_norm f > f64_0_4 then ''High: '' @ f_explanation f
         else if f_norm f > f64_0_2 then ''Moderate: '' @ f_explanation f
         else f_explanation f))"
proof (intro conjI)
  show "length (GenerateTopReasons score) \<le> 3"
    by (simp add: GenerateTopReasons_eq)
  have w: "Weight r \<ge> f64_0_01" if "r \<in> set (GenerateTopReasons score)" for r
    using that by (auto simp: GenerateTopReasons_eq mkReason_def dest!: in_set_takeD)
  show "\<forall>r \<in> set (GenerateTopReasons score). Weight r \<ge> f64_0_01 \<and> Weight r \<ge> 0.01"
  proof
    fix r assume "r \<in> set (GenerateTopReasons score)"
    from w [OF this] f64_constants(4) show "Weight r \<ge> f64_0_01 \<and> Weight r \<ge> 0.01"
      by simp
  qed
  have "sorted_wrt (\<lambda>a b. f_weight a \<ge> f_weight b)
          (filter (\<lambda>f. \<not> f_weight f < f64_0_01) (sortSlice factorLess (factors score)))"
    by (rule sorted_wrt_filter [OF sorted_factors])
  then have "sorted_wrt (\<lambda>a b. Weight a \<ge> Weight b)
          (map mkReason (filter (\<lambda>f. \<not> f_weight f < f64_0_01)
             (sortSlice factorLess (factors score))))"
    by (simp add: sorted_wrt_map mkReason_def)
  then show "sorted_wrt (\<lambda>a b. Weight a \<ge> Weight b) (GenerateTopReasons score)"
    unfolding GenerateTopReasons_eq by (rule sorted_wrt_take)
  show "\<forall>r \<in> set (GenerateTopReasons score). \<exists>f \<in> set (factors score).
      Factor r = f_name f \<and> Weight r = f_weight f \<and> Emoji r = f_emoji f \<and>
      Explanation r =
        (if f_norm f > f64_0_7 then ''Very high: '' @ f_explanation f
         else if f_norm f > f64_0_4 then ''High: '' @ f_explanation f
         else if f_norm f > f64_0_2 then ''Moderate: '' @ f_explanation f
         else f_explanation f)"
  proof
    fix r assume "r \<in> set (GenerateTopReasons score)"
    then obtain f where "f \<in> set (sortSlice factorLess (factors score))" "r = mkReason f"
      by (auto simp: GenerateTopReasons_eq dest!: in_set_takeD)
    then show "\<exists>f \<in> set (factors score).
      Factor r = f_name f \<and> Weight r = f_weight f \<and> Emoji r = f_emoji f \<and>
      Explanation r =
        (if f_norm f > f64_0_7 then ''Very high: '' @ f_explanation f
         else if f_norm f > f64_0_4 then ''High: '' @ f_explanation f
         else if f_norm f > f64_0_2 then ''Moderate: '' @ f_explanation f
         else f_explanation f)"
      by (intro bexI [of _ f]) (simp_all add: mkReason_def explain_def set_sortSlice)
  qed
qed

lemma GenerateTopReasons_exScore:
  "map (\<lambda>r. (Factor r, Weight r, Explanation r)) (GenerateTopReasons exScore) =
     [(''pagerank'', 0.25, ''Very high: Central in dependency graph''),
      (''priority'', 0.125, ''Very high: Explicit priority set''),
      (''betweenness'', 0.0625, ''High: Critical path bottleneck'')]"
  by (simp add: GenerateTopReasons_def exScore_def factors_def sortSlice_def factorLess_def
      mkReason_def explain_def f64_0_7_def f64_0_4_def f64_0_2_def f64_0_01_def)

text \<open>
  At the thresholds themselves nothing is exceeded: a value that is the constant 0.4 gets
  \<open>Moderate: \<close>, one that is the constant 0.2 gets no prefix.
\<close>

lemma explain_at_thresholds:
  "explain \<lparr>f_name = n, f_weight = w, f_norm = f64_0_7, f_explanation = t, f_emoji = e\<rparr>
     = ''High: '' @ t"
  "explain \<lparr>f_name = n, f_weight = w, f_norm = f64_0_4, f_explanation = t, f_emoji = e\<rparr>
     = ''Moderate: '' @ t"
  "explain \<lparr>f_name = n, f_weight = w, f_norm = f64_0_2, f_explanation = t, f_emoji = e\<rparr> = t"
  by (simp_all add: explain_def f64_0_7_def f64_0_4_def f64_0_2_def)

theorem GenerateTopReasons_props_witness:
  "map (\<lambda>r. (Factor r, Weight r, Explanation r)) (GenerateTopReasons exScore) =
     [(''pagerank'', 0.25, ''Very high: Central in dependency graph''),
      (''priority'', 0.125, ''Very high: Explicit priority set''),
      (''betweenness'', 0.0625, ''High: Critical path bottleneck'')] \<and>
   length (GenerateTopReasons exScore) \<le> 3 \<and>
   sorted_wrt (\<lambda>a b. Weight a \<ge> Weight b) (GenerateTopReasons exScore)"
  using GenerateTopReasons_props [of exScore] GenerateTopReasons_exScore by simp

section \<open>\<open>TopWhatIfDeltas\<close>\<close>

lemma collectWhatIf_eq:
  "collectWhatIf cwd m results = results @ concat (map (whatIfEntryOf cwd) m)"
  by (induction cwd m results rule: collectWhatIf.induct)
     (auto simp: whatIfEntryOf_def split: option.splits)

lemma whatIfLess_key: "whatIfLess a b \<longleftrightarrow> whatIfKey a < whatIfKey b"
  by (auto simp: whatIfLess_def whatIfKey_def)

lemma TopWhatIfDeltas_eq:
  "TopWhatIfDeltas cwd a n =
     take (if n \<le> 0 then 10 else nat n)
       (sortSlice whatIfLess (concat (map (whatIfEntryOf cwd) (issueMap a))))"
  by (auto simp: TopWhatIfDeltas_def Let_def collectWhatIf_eq length_sortSlice)

lemma rankedBefore_key: "rankedBefore x y \<longleftrightarrow> whatIfKey x \<le> whatIfKey y"
  by (auto simp: rankedBefore_def whatIfKey_def)

lemma sorted_wrt_take_drop:
  assumes "sorted_wrt R xs" "x \<in> set (take k xs)" "y \<in> set (drop k xs)"
  shows "R x y"
proof -
  have "sorted_wrt R (take k xs @ drop k xs)" using assms(1) by simp
  then show ?thesis using assms(2,3) unfolding sorted_wrt_append by blast
qed

lemma mset_minus_take: "mset xs - mset (take k xs) = mset (drop k xs)"
proof -
  have "mset xs = mset (take k xs) + mset (drop k xs)"
    by (metis append_take_drop_id mset_append)
  then show ?thesis by simp
qed

lemma sorted_whatIf:
  "sorted_wrt rankedBefore (sortSlice whatIfLess es)"
  using sorted_sortSlice [of whatIfLess whatIfKey es, OF whatIfLess_key]
  by (simp add: sorted_map rankedBefore_key [abs_def])

text \<open>
  Claim C8. \<open>TopWhatIfDeltas n\<close> returns only entries of non-closed issues of the issue map
  whose what-if delta has \<open>DirectUnblocks > 0\<close> or \<open>TransitiveUnblocks > 0\<close>; the entries are
  ordered by transitive unblocks descending, then direct unblocks descending, then issue
  ID ascending; there are at most \<open>n\<close> of them, \<open>n\<close> being 10 when a non-positive \<open>n\<close> is
  passed: exactly \<open>min n\<close> of the number of qualifying entries, and every qualifying entry
  left out ranks after every entry returned.
\<close>

theorem TopWhatIfDeltas_spec:
  "(let out = TopWhatIfDeltas cwd a n;
        k = (if n \<le> 0 then 10 else nat n);
        candidates = concat (map (whatIfEntryOf cwd) (issueMap a))
    in length out = min k (length candidates) \<and>
       (\<forall>e \<in> set out. \<exists>issue. (we_IssueID e, issue) \<in> set (issueMap a) \<and>
          Status issue \<noteq> StatusClosed \<and> we_Title e = i_Title issue \<and>
          cwd (we_IssueID e) = Some (Delta e) \<and>
          (DirectUnblocks (Delta e) > 0 \<or> TransitiveUnblocks (Delta e) > 0)) \<and>
       sorted_wrt rankedBefore out \<and>
       (\<forall>c \<in># mset candidates - mset out. \<forall>e \<in> set out. rankedBefore e c))"
proof -
  define k where "k = (if n \<le> 0 then 10 else nat n)"
  define candidates where "candidates = concat (map (whatIfEntryOf cwd) (issueMap a))"
  define S where "S = sortSlice whatIfLess candidates"
  have out: "TopWhatIfDeltas cwd a n = take k S"
    by (simp add: TopWhatIfDeltas_eq k_def S_def candidates_def)
  have sorted: "sorted_wrt rankedBefore S"
    unfolding S_def by (rule sorted_whatIf)
  have len: "length (take k S) = min k (length candidates)"
    by (simp add: S_def length_sortSlice min.commute)
  have mem: "\<exists>issue. (we_IssueID e, issue) \<in> set (issueMap a) \<and>
          Status issue \<noteq> StatusClosed \<and> we_Title e = i_Title issue \<and>
          cwd (we_IssueID e) = Some (Delta e) \<and>
          (DirectUnblocks (Delta e) > 0 \<or> TransitiveUnblocks (Delta e) > 0)"
    if "e \<in> set (take k S)" for e
  proof -
    from that have "e \<in> set candidates"
      by (auto simp: S_def set_sortSlice dest: in_set_takeD)
    then obtain iid issue where p: "(iid, issue) \<in> set (issueMap a)"
        "e \<in> set (whatIfEntryOf cwd (iid, issue))"
      by (auto simp: candidates_def)
    from p(2) have "we_IssueID e = iid \<and> Status issue \<noteq> StatusClosed \<and>
        we_Title e = i_Title issue \<and> cwd iid = Some (Delta e) \<and>
        (DirectUnblocks (Delta e) > 0 \<or> TransitiveUnblocks (Delta e) > 0)"
      by (auto simp: whatIfEntryOf_def split: if_splits option.splits)
    with p(1) show ?thesis by auto
  qed
  have top: "rankedBefore e c" if "c \<in># mset candidates - mset (take k S)" "e \<in> set (take k S)" for c e
  proof -
    have "mset candidates = mset S" by (simp add: S_def mset_sortSlice)
    with that(1) have "c \<in> set (drop k S)" by (simp add: mset_minus_take)
    with sorted that(2) show ?thesis by (rule sorted_wrt_take_drop)
  qed
  have "sorted_wrt rankedBefore (take k S)" using sorted by (rule sorted_wrt_take)
  with len mem top show ?thesis
    unfolding Let_def out k_def [symmetric] candidates_def [symmetric] by blast
qed

lemma TopWhatIfDeltas_ex:
  "map we_IssueID (TopWhatIfDeltas exCwd exAnalyzer 2) = [''c'', ''a''] \<and>
   map we_IssueID (TopWhatIfDeltas exCwd exAnalyzer 0) = [''c'', ''a'', ''b'']"
  by (simp add: TopWhatIfDeltas_def exCwd_def exAnalyzer_def exIssue_def sortSlice_def whatIfLess_def Let_def)

theorem TopWhatIfDeltas_spec_witness:
  "map we_IssueID (TopWhatIfDeltas exCwd exAnalyzer 2) = [''c'', ''a''] \<and>
   length (TopWhatIfDeltas exCwd exAnalyzer 2) = 2 \<and>
   sorted_wrt rankedBefore (TopWhatIfDeltas exCwd exAnalyzer 2)"
proof -
  have ids: "map we_IssueID (TopWhatIfDeltas exCwd exAnalyzer 2) = [''c'', ''a'']"
    using TopWhatIfDeltas_ex by simp
  from arg_cong [OF ids, of length]
  have "length (TopWhatIfDeltas exCwd exAnalyzer 2) = 2" by simp
  moreover have "sorted_wrt rankedBefore (TopWhatIfDeltas exCwd exAnalyzer 2)"
    using TopWhatIfDeltas_spec [of exCwd exAnalyzer 2] by (simp add: Let_def)
  ultimately show ?thesis using ids by simp
qed

section \<open>\<open>GenerateEnhancedRecommendationsWithThresholds\<close>\<close>

lemma enhanceLoop_eq:
  "enhanceLoop cwd recMap now scores enhanced =
     enhanced @ concat (map (enhancedOf cwd recMap now) scores)"
  by (induction scores arbitrary: enhanced)
     (auto simp: enhancedOf_def Let_def split: option.splits)

lemma enhancedLess_key: "enhancedLess a b \<longleftrightarrow> - pr_ImpactScore a < - pr_ImpactScore b"
  by (simp add: enhancedLess_def)

lemma sorted_enhanced:
  "sorted_wrt (\<lambda>x y. pr_ImpactScore x \<ge> pr_ImpactScore y) (sortSlice enhancedLess es)"
  using sorted_sortSlice [of enhancedLess "\<lambda>e. - pr_ImpactScore e" es, OF enhancedLess_key]
  by (simp add: sorted_map)

lemma GenerateEnhanced_eq:
  "GenerateEnhancedRecommendationsWithThresholds cwd now scores basicRecs =
     take 10 (sortSlice enhancedLess
       (concat (map (enhancedOf cwd (recMapOf basicRecs) now) scores)))"
  by (cases scores)
     (simp_all add: GenerateEnhancedRecommendationsWithThresholds_def sortSlice_def
        enhanceLoop_eq Let_def)

text \<open>
  Claim C4, as amended. The list returned holds at most 10 entries, in non-increasing
  order of impact score (nothing is said of the order of entries with equal scores): they
  are the \<open>min 10\<close> highest-scored of the entries built from the scores (one for each score
  that has a basic recommendation or a significant what-if delta), every entry left out
  scoring no more than every entry returned.
\<close>

theorem GenerateEnhanced_top10:
  "(let out = GenerateEnhancedRecommendationsWithThresholds cwd now scores basicRecs;
        candidates = concat (map (enhancedOf cwd (recMapOf basicRecs) now) scores)
    in length out \<le> 10 \<and> length out = min 10 (length candidates) \<and>
       sorted_wrt (\<lambda>x y. pr_ImpactScore x \<ge> pr_ImpactScore y) out \<and>
       mset out \<subseteq># mset candidates \<and>
       (\<forall>c \<in># mset candidates - mset out. \<forall>e \<in> set out.
          pr_ImpactScore e \<ge> pr_ImpactScore c))"
proof -
  define candidates where
    "candidates = concat (map (enhancedOf cwd (recMapOf basicRecs) now) scores)"
  define S where "S = sortSlice enhancedLess candidates"
  have out: "GenerateEnhancedRecommendationsWithThresholds cwd now scores basicRecs = take 10 S"
    by (simp add: GenerateEnhanced_eq S_def candidates_def)
  have sorted: "sorted_wrt (\<lambda>x y. pr_ImpactScore x \<ge> pr_ImpactScore y) S"
    unfolding S_def by (rule sorted_enhanced)
  have mS: "mset candidates = mset S" by (simp add: S_def mset_sortSlice)
  have len: "length (take 10 S) = min 10 (length candidates)"
    by (simp add: S_def length_sortSlice min.commute)
  have sub: "mset (take 10 S) \<subseteq># mset candidates"
    unfolding mS by (metis append_take_drop_id mset_append mset_subset_eq_add_left)
  have top: "pr_ImpactScore e \<ge> pr_ImpactScore c"
    if "c \<in># mset candidates - mset (take 10 S)" "e \<in> set (take 10 S)" for c e
  proof -
    from that(1) have "c \<in> set (drop 10 S)" by (simp add: mS mset_minus_take)
    with sorted that(2) show ?thesis by (rule sorted_wrt_take_drop)
  qed
  have "sorted_wrt (\<lambda>x y. pr_ImpactScore x \<ge> pr_ImpactScore y) (take 10 S)"
    using sorted by (rule sorted_wrt_take)
  with len sub top show ?thesis
    unfolding Let_def out candidates_def [symmetric] by auto
qed

lemma GenerateEnhanced_exTie:
  "map (\<lambda>e. (pr_IssueID e, pr_ImpactScore e, CurrentPriority e))
     (GenerateEnhancedRecommendationsWithThresholds exCwd ''2026-01-01T00:00:00Z'' exTie []) =
   [(''a'', 0.5, 2), (''b'', 0.5, 1)]"
  by (simp add: GenerateEnhanced_eq exTie_def enhancedOf_def recMapOf_def exCwd_def
      sortSlice_def enhancedLess_def Let_def)

theorem GenerateEnhanced_top10_witness:
  "map (\<lambda>e. (pr_IssueID e, pr_ImpactScore e, CurrentPriority e))
     (GenerateEnhancedRecommendationsWithThresholds exCwd ''2026-01-01T00:00:00Z'' exTie []) =
   [(''a'', 0.5, 2), (''b'', 0.5, 1)] \<and>
   length (GenerateEnhancedRecommendationsWithThresholds exCwd ''2026-01-01T00:00:00Z'' exTie [])
     \<le> 10 \<and>
   sorted_wrt (\<lambda>x y. pr_ImpactScore x \<ge> pr_ImpactScore y)
     (GenerateEnhancedRecommendationsWithThresholds exCwd ''2026-01-01T00:00:00Z'' exTie [])"
  using GenerateEnhanced_top10 [of exCwd "''2026-01-01T00:00:00Z''" exTie "[]"]
    GenerateEnhanced_exTie
  by (simp add: Let_def)

text \<open>
  Claim C4 as stated fails: with two entries of equal impact score, the first of priority
  2 and the second of priority 1, the list returned keeps the entry of priority 2 first.
  Ties are not broken by priority ascending (nor by anything else), so the list is not
  ordered by score descending then priority ascending, whatever the later tie-breaks.
\<close>

theorem GenerateEnhanced_ties_counterexample:
  "\<not> sorted_wrt (\<lambda>x y. pr_ImpactScore x > pr_ImpactScore y \<or>
         pr_ImpactScore x = pr_ImpactScore y \<and> CurrentPriority x \<le> CurrentPriority y)
       (GenerateEnhancedRecommendationsWithThresholds exCwd ''2026-01-01T00:00:00Z'' exTie [])"
proof -
  obtain e1 e2 where out:
    "GenerateEnhancedRecommendationsWithThresholds exCwd ''2026-01-01T00:00:00Z'' exTie []
       = [e1, e2]"
    and "pr_ImpactScore e1 = 0.5" "pr_ImpactScore e2 = 0.5"
    and "CurrentPriority e1 = 2" "CurrentPriority e2 = 1"
    using GenerateEnhanced_exTie by (auto simp: map_eq_Cons_conv)
  then show ?thesis by simp
qed

section \<open>The what-if delta\<close>

lemma reverseBFS_prefix: "\<exists>rest. reverseBFS issues visited queue = visited @ rest"
proof (induction issues visited queue rule: reverseBFS.induct)
  case (1 issues visited)
  then show ?case by simp
next
  case (2 issues visited q queue)
  then show ?case by (auto simp: Let_def)
qed

lemma not_self_dependent: "x \<notin> set (dependents issues x)"
  by (auto simp: dependents_def blockedBy_def)

lemma reverseBFS_start:
  "\<exists>rest. tl (reverseBFS issues [x] [x]) = dependents issues x @ rest"
proof -
  have new: "filter (\<lambda>y. y \<noteq> x) (dependents issues x) = dependents issues x"
    using not_self_dependent [of x issues] by (auto intro: filter_True)
  obtain rest where "reverseBFS issues ([x] @ dependents issues x) ([] @ dependents issues x)
      = ([x] @ dependents issues x) @ rest"
    using reverseBFS_prefix by blast
  then show ?thesis by (simp add: new Let_def)
qed

text \<open>
  The counts of a what-if delta agree with each other: for every issue \<open>X\<close> there is a
  delta, \<open>DirectUnblocks \<le> TransitiveUnblocks\<close>, and the length of \<open>UnblockedIssueIDs\<close> is at
  most \<open>min cap TransitiveUnblocks\<close>. The flag that
  \<open>GenerateEnhancedRecommendationsWithThresholds\<close> computes from the delta is set only when
  \<open>TransitiveUnblocks\<close> exceeds the length of the list.
\<close>

lemma WhatIf_bounds:
  assumes "x \<in> ID ` set issues"
  shows "\<exists>y. WhatIf cap issues x = Some y \<and>
     DirectUnblocks y \<le> TransitiveUnblocks y \<and>
     int (length (UnblockedIssueIDs y)) \<le> min (int cap) (TransitiveUnblocks y) \<and>
     (explanationCapped (WhatIf cap issues x) \<longrightarrow>
        TransitiveUnblocks y > int (length (UnblockedIssueIDs y)))"
proof -
  obtain rest where "tl (reverseBFS issues [x] [x]) = dependents issues x @ rest"
    using reverseBFS_start by blast
  then have "length (openIDs issues (dependents issues x))
      \<le> length (openIDs issues (tl (reverseBFS issues [x] [x])))"
    by (simp add: openIDs_def)
  with assms show ?thesis
    by (auto simp: WhatIf_def Let_def explanationCapped_def min_def)
qed


lemma WhatIf_star:
  "WhatIf 2 star ''hub'' =
     Some \<lparr>DirectUnblocks = 3, TransitiveUnblocks = 3, UnblockedIssueIDs = [''s1'', ''s2'']\<rparr>"
  by code_simp

text \<open>Where the list is cut below the number of direct unblocks, the flag is set.\<close>

lemma capped_star: "explanationCapped (WhatIf 2 star ''hub'')"
  by (simp add: WhatIf_star explanationCapped_def)


section \<open>Cycle-break suggestions\<close>

subsection \<open>The edge frequency map\<close>

lemma cyclePairs_split:
  assumes "2 \<le> length cycle"
  shows "cyclePairs cycle =
     map (\<lambda>j. (cycle ! j, cycle ! (j + 1))) [0..<length cycle - 1] @
       [(cycle ! (length cycle - 1), cycle ! 0)]"
proof -
  obtain n where n: "length cycle = Suc n" using assms by (cases "length cycle") auto
  have "map (\<lambda>j. (cycle ! j, cycle ! ((j + 1) mod Suc n))) [0..<n] =
        map (\<lambda>j. (cycle ! j, cycle ! (j + 1))) [0..<n]"
    by (rule map_cong) auto
  then show ?thesis by (simp add: cyclePairs_def n)
qed

lemma addCycle_eq:
  "addCycle m i cycle = foldl (\<lambda>m k. appendIndex m k i) m (countedEdges cycle)"
proof (cases "length cycle < 2")
  case True
  then show ?thesis by (simp add: addCycle_def countedEdges_def skipped_def)
next
  case False
  then have len: "2 \<le> length cycle" by simp
  from False have hd0: "hd cycle = cycle ! 0" by (cases cycle) auto
  show ?thesis
  proof (cases "isMarker (cycle ! 0)")
    case True
    with False hd0 show ?thesis
      by (simp add: addCycle_def countedEdges_def skipped_def isMarker_def)
  next
    case False
    with len hd0 show ?thesis
      by (simp add: addCycle_def countedEdges_def skipped_def cyclePairs_split [OF len]
          isMarker_def foldl_map Let_def)
  qed
qed

lemma foldl_addCycle:
  "foldl (\<lambda>m i. addCycle m i (cycles ! i)) m ixs =
     foldl (\<lambda>m p. appendIndex m (fst p) (snd p)) m (indexedEdges cycles ixs)"
  by (induction ixs arbitrary: m) (simp_all add: indexedEdges_def addCycle_eq foldl_map)

lemma buildEdgeFreq_eq:
  "buildEdgeFreq cycles =
     foldl (\<lambda>m p. appendIndex m (fst p) (snd p)) [] (indexedEdges cycles [0..<length cycles])"
  by (simp add: buildEdgeFreq_def foldl_addCycle)

lemma keys_appendIndex:
  "map fst (appendIndex m k i) = (if k \<in> fst ` set m then map fst m else map fst m @ [k])"
  by (induction m k i rule: appendIndex.induct) auto

lemma map_of_appendIndex:
  "map_of (appendIndex m k i) =
     (map_of m)(k \<mapsto> (case map_of m k of None \<Rightarrow> [i] | Some v \<Rightarrow> v @ [i]))"
  by (induction m k i rule: appendIndex.induct) (auto simp: fun_eq_iff)

lemma distinct_appendIndex:
  "distinct (map fst m) \<Longrightarrow> distinct (map fst (appendIndex m k i))"
  by (simp add: keys_appendIndex)

lemma foldl_appendIndex:
  "distinct (map fst m) \<Longrightarrow>
   distinct (map fst (foldl (\<lambda>m p. appendIndex m (fst p) (snd p)) m ps)) \<and>
   fst ` set (foldl (\<lambda>m p. appendIndex m (fst p) (snd p)) m ps) = fst ` set m \<union> fst ` set ps \<and>
   map_of (foldl (\<lambda>m p. appendIndex m (fst p) (snd p)) m ps) k =
     (case map_of m k of
        None \<Rightarrow> if indicesOf ps k = [] then None else Some (indicesOf ps k)
      | Some v \<Rightarrow> Some (v @ indicesOf ps k))"
proof (induction ps arbitrary: m)
  case Nil
  then show ?case by (simp add: indicesOf_def split: option.splits)
next
  case (Cons p ps)
  have d: "distinct (map fst (appendIndex m (fst p) (snd p)))"
    using Cons.prems by (rule distinct_appendIndex)
  have keys: "fst ` set (appendIndex m (fst p) (snd p)) = insert (fst p) (fst ` set m)"
    using keys_appendIndex [of m "fst p" "snd p"]
    by (metis (no_types, lifting) Un_insert_right append_Nil2 insert_absorb list.set(2)
        list.simps(15) set_append set_map)
  from Cons.IH [OF d] keys show ?case
    by (auto simp: map_of_appendIndex indicesOf_def split: option.splits)
qed

lemma set_indicesOf:
  "set (indicesOf (indexedEdges cycles ixs) k) =
     {i \<in> set ixs. k \<in> set (countedEdges (cycles ! i))}"
proof -
  have "set (filter (\<lambda>p. fst p = k) (indexedEdges cycles ixs)) =
      (\<lambda>i. (k, i)) ` {i \<in> set ixs. k \<in> set (countedEdges (cycles ! i))}"
    by (auto simp: indexedEdges_def)
  then show ?thesis by (simp add: indicesOf_def image_image)
qed

lemma indicesOf_single:
  "distinct es \<Longrightarrow>
   map snd (filter (\<lambda>p. fst p = k) (map (\<lambda>e. (e, i)) es)) = (if k \<in> set es then [i] else [])"
  by (induction es) auto

lemma indicesOf_distinct:
  "\<forall>i \<in> set ixs. distinct (countedEdges (cycles ! i)) \<Longrightarrow>
   indicesOf (indexedEdges cycles ixs) k =
     filter (\<lambda>i. k \<in> set (countedEdges (cycles ! i))) ixs"
proof (induction ixs)
  case Nil
  then show ?case by (simp add: indicesOf_def indexedEdges_def)
next
  case (Cons i ixs)
  then have "indicesOf (indexedEdges cycles ixs) k =
     filter (\<lambda>i. k \<in> set (countedEdges (cycles ! i))) ixs"
    and "distinct (countedEdges (cycles ! i))" by simp_all
  then show ?case
    using indicesOf_single [of "countedEdges (cycles ! i)" k i]
    by (simp add: indicesOf_def indexedEdges_def)
qed

lemma fst_indexedEdges:
  "fst ` set (indexedEdges cycles ixs) = (\<Union>i \<in> set ixs. set (countedEdges (cycles ! i)))"
  by (auto simp: indexedEdges_def image_iff)

text \<open>The entries of the map: one for each counted edge, with the indices of its occurrences.\<close>

lemma buildEdgeFreq_entries:
  shows "distinct (map fst (buildEdgeFreq cycles))"
    and "fst ` set (buildEdgeFreq cycles) = (\<Union>c \<in> set cycles. set (countedEdges c))"
    and "(k, v) \<in> set (buildEdgeFreq cycles) \<Longrightarrow>
           v = indicesOf (indexedEdges cycles [0..<length cycles]) k"
proof -
  let ?ps = "indexedEdges cycles [0..<length cycles]"
  have f: "distinct (map fst (buildEdgeFreq cycles)) \<and>
     fst ` set (buildEdgeFreq cycles) = fst ` set ?ps \<and>
     map_of (buildEdgeFreq cycles) k =
       (if indicesOf ?ps k = [] then None else Some (indicesOf ?ps k))" for k
    using foldl_appendIndex [of "[]" ?ps k] by (simp add: buildEdgeFreq_eq)
  show d: "distinct (map fst (buildEdgeFreq cycles))" using f by simp
  have "set cycles = (!) cycles ` set [0..<length cycles]"
    by (metis map_nth set_map)
  then have "(\<Union>i \<in> set [0..<length cycles]. set (countedEdges (cycles ! i))) =
        (\<Union>c \<in> set cycles. set (countedEdges c))"
    by (metis (no_types) image_image)
  then show "fst ` set (buildEdgeFreq cycles) = (\<Union>c \<in> set cycles. set (countedEdges c))"
    using f fst_indexedEdges [of cycles "[0..<length cycles]"] by simp
  assume "(k, v) \<in> set (buildEdgeFreq cycles)"
  with d have "map_of (buildEdgeFreq cycles) k = Some v" by simp
  with f [of k] show "v = indicesOf ?ps k" by (simp split: if_splits)
qed

subsection \<open>The ranking\<close>

lemma rankLess_key: "rankLess a b \<longleftrightarrow> rankKey a < rankKey b"
  by (cases "r_key a"; cases "r_key b") (auto simp: rankLess_def rankKey_def)

lemma ranked_edges:
  fixes cycles
  defines "ranked \<equiv> sortSlice rankLess
     (map (\<lambda>(k, cycs). \<lparr>r_key = k, r_cycles = cycs, r_count = length cycs\<rparr>)
        (buildEdgeFreq cycles))"
  shows "\<exists>es. ranked = map (rankOf cycles) es \<and> distinct es \<and> set es = breakEdges cycles \<and>
           sorted_wrt (\<lambda>e1 e2. rankKey (rankOf cycles e1) < rankKey (rankOf cycles e2)) es"
proof -
  let ?mk = "\<lambda>(k, cycs). \<lparr>r_key = k, r_cycles = cycs, r_count = length cycs\<rparr>"
  let ?ef = "buildEdgeFreq cycles"
  define es where "es = map r_key ranked"
  have m: "mset ranked = mset (map ?mk ?ef)" by (simp add: ranked_def mset_sortSlice)
  have sr: "set ranked = set (map ?mk ?ef)" by (simp add: ranked_def set_sortSlice)
  have r: "rankOf cycles (r_key r) = r" if "r \<in> set ranked" for r
  proof -
    from that have "r \<in> set (map ?mk ?ef)" by (simp only: sr)
    then obtain k v where kv: "(k, v) \<in> set ?ef" "r = ?mk (k, v)" by auto
    from buildEdgeFreq_entries(3) [OF kv(1)] kv(2) show ?thesis
      by (simp add: rankOf_def occurrences_def)
  qed
  then have eq: "ranked = map (rankOf cycles) es" by (simp add: es_def map_idI)
  have km: "map r_key (map ?mk ?ef) = map fst ?ef" by (induction ?ef) auto
  have "mset es = mset (map r_key (map ?mk ?ef))"
    unfolding es_def by (simp only: mset_map m)
  then have mk: "mset es = mset (map fst ?ef)" by (simp only: km)
  have d: "distinct es"
    using mset_eq_imp_distinct_iff [OF mk] buildEdgeFreq_entries(1) [of cycles] by simp
  have s: "set es = breakEdges cycles"
    using mset_eq_setD [OF mk] buildEdgeFreq_entries(2) [of cycles]
    by (simp add: breakEdges_def)
  have "sorted (map rankKey ranked)"
    unfolding ranked_def by (rule sorted_sortSlice [OF rankLess_key])
  then have so: "sorted (map (\<lambda>e. rankKey (rankOf cycles e)) es)"
    by (subst (asm) eq) (simp add: comp_def)
  have "inj_on (\<lambda>e. rankKey (rankOf cycles e)) (set es)"
    by (auto simp: inj_on_def rankKey_def rankOf_def)
  with d have "distinct (map (\<lambda>e. rankKey (rankOf cycles e)) es)"
    by (simp add: distinct_map)
  with so have "sorted_wrt (<) (map (\<lambda>e. rankKey (rankOf cycles e)) es)"
    by (simp add: strict_sorted_iff)
  then have "sorted_wrt (\<lambda>e1 e2. rankKey (rankOf cycles e1) < rankKey (rankOf cycles e2)) es"
    by (simp add: sorted_wrt_map)
  with eq d s show ?thesis by blast
qed

lemma suggestLoop_eq:
  "suggestLoop a limit ranked i suggestions =
     suggestions @ map (mkItem a) (take (nat (limit - int i)) ranked)"
proof (induction ranked arbitrary: i suggestions)
  case Nil
  then show ?case by simp
next
  case (Cons r ranked)
  show ?case
  proof (cases "int i \<ge> limit")
    case True
    then show ?thesis by simp
  next
    case False
    then have "nat (limit - int i) = Suc (nat (limit - int (i + 1)))" by simp
    with False Cons.IH [of "i + 1" "suggestions @ [mkItem a r]"] show ?thesis
      by (simp del: of_nat_Suc of_nat_add)
  qed
qed

subsection \<open>The result\<close>

lemma makeSlice_Inr:
  "makeSlice rt n = Inr s \<longleftrightarrow>
     s = [] \<and> 0 \<le> n \<and> itemSize rt * n \<le> maxAlloc rt \<and> itemSize rt * n \<le> memAvail rt"
  by (auto simp: makeSlice_def)

lemma generate_no_cycles:
  "generateCycleBreakSuggestions rt a [] limit = Inr exNoCycles"
  by (simp add: generateCycleBreakSuggestions_def exNoCycles_def)

text \<open>With a cycle entry, the function returns exactly when \<open>make\<close> does.\<close>

lemma generate_returns:
  assumes "generateCycleBreakSuggestions rt a cycles limit = Inr r" and "cycles \<noteq> []"
  shows "makeSlice rt limit = Inr []"
proof (cases "makeSlice rt limit")
  case (Inl e)
  with assms show ?thesis by (simp add: generateCycleBreakSuggestions_def Let_def)
next
  case (Inr s)
  then show ?thesis by (simp add: makeSlice_Inr)
qed

lemma generate_result:
  assumes "cycles \<noteq> []" and "makeSlice rt limit = Inr []"
  shows "\<exists>es r. generateCycleBreakSuggestions rt a cycles limit = Inr r \<and>
     distinct es \<and> set es = breakEdges cycles \<and>
     sorted_wrt (\<lambda>e1 e2. rankKey (rankOf cycles e1) < rankKey (rankOf cycles e2)) es \<and>
     Suggestions r = map (\<lambda>e. mkItem a (rankOf cycles e)) (take (nat limit) es) \<and>
     cb_Status r = \<lparr>State = ''available'', Reason = [], Capped = (int (length es) > limit),
       Count = min (nat limit) (length es), Limited = length es\<rparr> \<and>
     CycleCount r = length cycles"
proof -
  obtain es where es: "sortSlice rankLess
       (map (\<lambda>(k, cycs). \<lparr>r_key = k, r_cycles = cycs, r_count = length cycs\<rparr>)
          (buildEdgeFreq cycles)) = map (rankOf cycles) es"
    and p: "distinct es" "set es = breakEdges cycles"
      "sorted_wrt (\<lambda>e1 e2. rankKey (rankOf cycles e1) < rankKey (rankOf cycles e2)) es"
    using ranked_edges [of cycles] by blast
  from assms have "\<exists>r. generateCycleBreakSuggestions rt a cycles limit = Inr r \<and>
     Suggestions r = map (\<lambda>e. mkItem a (rankOf cycles e)) (take (nat limit) es) \<and>
     cb_Status r = \<lparr>State = ''available'', Reason = [], Capped = (int (length es) > limit),
       Count = min (nat limit) (length es), Limited = length es\<rparr> \<and>
     CycleCount r = length cycles"
    by (simp add: generateCycleBreakSuggestions_def es suggestLoop_eq take_map comp_def
        min.commute)
  with p show ?thesis by blast
qed

lemma occurrences_distinct:
  assumes "\<forall>c \<in> set cycles. distinct (countedEdges c)"
  shows "occurrences cycles e = cyclesContaining cycles e"
  unfolding occurrences_def cyclesContaining_def
  by (rule indicesOf_distinct) (use assms in auto)

lemma set_occurrences:
  "set (occurrences cycles e) = {i. i < length cycles \<and> e \<in> set (countedEdges (cycles ! i))}"
  by (auto simp: occurrences_def set_indicesOf)

lemma card_cyclesContaining:
  "card {i. i < length cycles \<and> e \<in> set (countedEdges (cycles ! i))}
     = length (cyclesContaining cycles e)"
proof -
  have "distinct (cyclesContaining cycles e)" by (simp add: cyclesContaining_def)
  then have "length (cyclesContaining cycles e) = card (set (cyclesContaining cycles e))"
    by (simp add: distinct_card)
  also have "set (cyclesContaining cycles e) =
      {i. i < length cycles \<and> e \<in> set (countedEdges (cycles ! i))}"
    by (auto simp: cyclesContaining_def)
  finally show ?thesis by simp
qed

text \<open>
  Claim C2. With no cycle passing twice over the same edge. The function returns a result
  when there is no cycle, and otherwise when \<open>make\<close> returns, that is for a limit that is
  not negative and within what the allocator accepts and the memory holds (else the program
  stops in \<open>make\<close>). For every result returned: the edges of the cycles are ranked by the
  number of cycles they appear in, descending, ties broken by source ID ascending then
  target ID ascending (\<open>es\<close> is that ranking: every edge once, in that strict order), and
  there is one suggestion for each of the first \<open>limit\<close> edges, in that order, whose impact
  is the number of cycles containing the edge, whose collateral is the number of
  dependents of the edge's target (the number of nodes that the graph lists with an edge
  into the node of the target, 0 for a target without node), and whose in-cycles list
  gives the indices of the cycles containing the edge.
\<close>

theorem generateCycleBreakSuggestions_ranking:
  assumes "\<forall>c \<in> set cycles. distinct (countedEdges c)"
  shows "(cycles = [] \<or>
          0 \<le> limit \<and> itemSize rt * limit \<le> maxAlloc rt \<and> itemSize rt * limit \<le> memAvail rt
          \<longrightarrow> (\<exists>r. generateCycleBreakSuggestions rt a cycles limit = Inr r)) \<and>
     (\<forall>r. generateCycleBreakSuggestions rt a cycles limit = Inr r \<longrightarrow>
        (\<exists>es. distinct es \<and> set es = breakEdges cycles \<and> sorted_wrt (edgeBefore cycles) es \<and>
           Suggestions r =
             map (\<lambda>e. \<lparr>EdgeFrom = fst e, EdgeTo = snd e,
                   Impact = card {i. i < length cycles \<and> e \<in> set (countedEdges (cycles ! i))},
                   Collateral = (case idToNode a (snd e) of None \<Rightarrow> 0
                                 | Some nodeID \<Rightarrow> length (g_To a nodeID)),
                   InCycles = cyclesContaining cycles e,
                   Rationale =
                     ''Appears in most cycles; removing minimizes structural damage.''\<rparr>)
                 (take (nat limit) es)))"
proof (intro conjI allI impI)
  assume "cycles = [] \<or>
    0 \<le> limit \<and> itemSize rt * limit \<le> maxAlloc rt \<and> itemSize rt * limit \<le> memAvail rt"
  then show "\<exists>r. generateCycleBreakSuggestions rt a cycles limit = Inr r"
  proof (cases "cycles = []")
    case True
    then show ?thesis by (simp add: generate_no_cycles)
  next
    case False
    assume "cycles = [] \<or>
      0 \<le> limit \<and> itemSize rt * limit \<le> maxAlloc rt \<and> itemSize rt * limit \<le> memAvail rt"
    with False have "makeSlice rt limit = Inr []" by (simp add: makeSlice_Inr)
    from generate_result [OF False this, of a] show ?thesis by blast
  qed
next
  fix r assume r: "generateCycleBreakSuggestions rt a cycles limit = Inr r"
  show "\<exists>es. distinct es \<and> set es = breakEdges cycles \<and> sorted_wrt (edgeBefore cycles) es \<and>
           Suggestions r =
             map (\<lambda>e. \<lparr>EdgeFrom = fst e, EdgeTo = snd e,
                   Impact = card {i. i < length cycles \<and> e \<in> set (countedEdges (cycles ! i))},
                   Collateral = (case idToNode a (snd e) of None \<Rightarrow> 0
                                 | Some nodeID \<Rightarrow> length (g_To a nodeID)),
                   InCycles = cyclesContaining cycles e,
                   Rationale =
                     ''Appears in most cycles; removing minimizes structural damage.''\<rparr>)
                 (take (nat limit) es)"
  proof (cases "cycles = []")
    case True
    with r have "Suggestions r = []" by (auto simp: generate_no_cycles exNoCycles_def)
    moreover from True have "breakEdges cycles = {}" by (simp add: breakEdges_def)
    ultimately show ?thesis by (intro exI [of _ "[]"]) simp
  next
    case False
    from generate_result [OF False generate_returns [OF r False], of a] r
    obtain es where p: "distinct es" "set es = breakEdges cycles"
      and so: "sorted_wrt (\<lambda>e1 e2. rankKey (rankOf cycles e1) < rankKey (rankOf cycles e2)) es"
      and su: "Suggestions r = map (\<lambda>e. mkItem a (rankOf cycles e)) (take (nat limit) es)"
      by auto
    note occ = occurrences_distinct [OF assms]
    have "(\<lambda>e1 e2. rankKey (rankOf cycles e1) < rankKey (rankOf cycles e2)) = edgeBefore cycles"
      by (auto simp: fun_eq_iff rankKey_def rankOf_def edgeBefore_def occ)
    with so have "sorted_wrt (edgeBefore cycles) es" by simp
    moreover have "Suggestions r =
             map (\<lambda>e. \<lparr>EdgeFrom = fst e, EdgeTo = snd e,
                   Impact = card {i. i < length cycles \<and> e \<in> set (countedEdges (cycles ! i))},
                   Collateral = (case idToNode a (snd e) of None \<Rightarrow> 0
                                 | Some nodeID \<Rightarrow> length (g_To a nodeID)),
                   InCycles = cyclesContaining cycles e,
                   Rationale =
                     ''Appears in most cycles; removing minimizes structural damage.''\<rparr>)
                 (take (nat limit) es)"
      by (simp add: su mkItem_def rankOf_def occ card_cyclesContaining countDependents_def)
    ultimately show ?thesis using p by blast
  qed
qed

subsection \<open>Examples\<close>

lemma generate_ex: "generateCycleBreakSuggestions linux64 exGraph exCycles 2 = Inr exResult"
  by code_simp

lemma exCycles_simple: "\<forall>c \<in> set exCycles. distinct (countedEdges c)"
  by code_simp

text \<open>Where \<open>make\<close> stops the program: a negative limit, and the largest \<open>int\<close>.\<close>

lemma generate_negative_limit:
  "generateCycleBreakSuggestions linux64 exGraph exCycles (- 1) = Inl MakeSliceCapOutOfRange"
  by code_simp

lemma generate_MaxInt64:
  "generateCycleBreakSuggestions linux64 exGraph exCycles (2 ^ 63 - 1) =
     Inl MakeSliceCapOutOfRange"
  by code_simp

lemma generate_out_of_memory:
  "generateCycleBreakSuggestions linux64 exGraph exCycles (2 ^ 40) = Inl OutOfMemory"
  by code_simp

theorem generateCycleBreakSuggestions_ranking_witness:
  "exCycles \<noteq> [] \<and> (0::int) \<le> 2 \<and> itemSize linux64 * 2 \<le> maxAlloc linux64 \<and>
   itemSize linux64 * 2 \<le> memAvail linux64 \<and>
   (\<exists>es. generateCycleBreakSuggestions linux64 exGraph exCycles 2 = Inr exResult \<and>
      take 2 es = [(''a'', ''b''), (''c'', ''a'')] \<and> set es = breakEdges exCycles \<and>
      sorted_wrt (edgeBefore exCycles) es)"
proof -
  have h1: "exCycles \<noteq> []" by (simp add: exCycles_def)
  have h2: "(0::int) \<le> 2 \<and> itemSize linux64 * 2 \<le> maxAlloc linux64 \<and>
      itemSize linux64 * 2 \<le> memAvail linux64"
    by (simp add: linux64_def)
  from generateCycleBreakSuggestions_ranking [OF exCycles_simple, of 2 linux64 exGraph]
    generate_ex
  obtain es where es: "set es = breakEdges exCycles" "sorted_wrt (edgeBefore exCycles) es"
    and su: "Suggestions exResult =
       map (\<lambda>e. \<lparr>EdgeFrom = fst e, EdgeTo = snd e,
                  Impact = card {i. i < length exCycles \<and> e \<in> set (countedEdges (exCycles ! i))},
                  Collateral = (case idToNode exGraph (snd e) of None \<Rightarrow> 0
                                | Some nodeID \<Rightarrow> length (g_To exGraph nodeID)),
                  InCycles = cyclesContaining exCycles e,
                  Rationale = ''Appears in most cycles; removing minimizes structural damage.''\<rparr>)
           (take (nat 2) es)"
    by auto
  from su have "map (\<lambda>e. (fst e, snd e)) (take 2 es) = [(''a'', ''b''), (''c'', ''a'')]"
    by (auto simp: exResult_def map_eq_Cons_conv)
  then have "take 2 es = [(''a'', ''b''), (''c'', ''a'')]" by simp
  with h1 h2 es generate_ex show ?thesis by auto
qed

subsection \<open>Suggested edges lie on their cycles\<close>

lemma suggestion_origin:
  assumes "generateCycleBreakSuggestions rt a cycles limit = Inr r"
    and "s \<in> set (Suggestions r)"
  shows "\<exists>e \<in> breakEdges cycles. s = mkItem a (rankOf cycles e)"
proof -
  from assms have ne: "cycles \<noteq> []"
    by (auto simp: generate_no_cycles exNoCycles_def)
  from generate_result [OF ne generate_returns [OF assms(1) ne], of a] assms(1)
  obtain es where "set es = breakEdges cycles"
    "Suggestions r = map (\<lambda>e. mkItem a (rankOf cycles e)) (take (nat limit) es)"
    by auto
  with assms(2) show ?thesis by (auto dest: in_set_takeD)
qed

lemma countedEdges_nth:
  assumes "e \<in> set (countedEdges c)"
  shows "\<not> skipped c \<and> (\<exists>j < length c. e = (c ! j, c ! ((j + 1) mod length c)))"
  using assms by (auto simp: countedEdges_def cyclePairs_def split: if_splits)

text \<open>
  Claim C3. For every suggestion emitted and every cycle index of its in-cycles list, the
  suggested edge is a consecutive pair of the cycle at that index, the pair from the last
  node back to the first included.
\<close>

theorem suggested_edge_in_cycles:
  assumes "generateCycleBreakSuggestions rt a cycles limit = Inr r"
  shows "\<forall>s \<in> set (Suggestions r). \<forall>i \<in> set (InCycles s).
     i < length cycles \<and>
     (\<exists>j < length (cycles ! i).
        EdgeFrom s = cycles ! i ! j \<and>
        EdgeTo s = cycles ! i ! ((j + 1) mod length (cycles ! i)))"
proof (intro ballI)
  fix s i assume s: "s \<in> set (Suggestions r)" and i: "i \<in> set (InCycles s)"
  from suggestion_origin [OF assms s] obtain e where e: "s = mkItem a (rankOf cycles e)"
    by blast
  with i have "i \<in> set (occurrences cycles e)" by (simp add: mkItem_def rankOf_def)
  then have "i < length cycles" "e \<in> set (countedEdges (cycles ! i))"
    by (simp_all add: set_occurrences)
  with countedEdges_nth [of e "cycles ! i"] e
  show "i < length cycles \<and>
     (\<exists>j < length (cycles ! i).
        EdgeFrom s = cycles ! i ! j \<and>
        EdgeTo s = cycles ! i ! ((j + 1) mod length (cycles ! i)))"
    by (auto simp: mkItem_def rankOf_def)
qed

theorem suggested_edge_in_cycles_witness:
  "generateCycleBreakSuggestions linux64 exGraph exCycles 2 = Inr exResult \<and>
   (3::nat) < length exCycles \<and>
   (\<exists>j < length (exCycles ! 3).
      ''c'' = exCycles ! 3 ! j \<and> ''a'' = exCycles ! 3 ! ((j + 1) mod length (exCycles ! 3)))"
  using suggested_edge_in_cycles [OF generate_ex] generate_ex
  by (simp add: exResult_def)

subsection \<open>Capping\<close>

text \<open>
  Claim C7, as amended. The function returns a result when there is no cycle, and
  otherwise when \<open>make\<close> returns, that is for a limit that is not negative and within what
  the allocator accepts and the memory holds. For every result returned with a limit that
  is not negative: \<open>count\<close> is the number of suggestions returned; when the number of
  distinct ranked edges exceeds the limit, the status has \<open>capped\<close> true, \<open>limited\<close> is the
  number of ranked edges before capping, and \<open>count\<close> is the limit; otherwise \<open>capped\<close> is
  false and \<open>count\<close> is the number of ranked edges.
\<close>

theorem capped_status:
  "(cycles = [] \<or>
    0 \<le> limit \<and> itemSize rt * limit \<le> maxAlloc rt \<and> itemSize rt * limit \<le> memAvail rt
    \<longrightarrow> (\<exists>r. generateCycleBreakSuggestions rt a cycles limit = Inr r)) \<and>
   (\<forall>r. generateCycleBreakSuggestions rt a cycles limit = Inr r \<and> 0 \<le> limit \<longrightarrow>
      Count (cb_Status r) = length (Suggestions r) \<and>
      (int (card (breakEdges cycles)) > limit \<longrightarrow>
         Capped (cb_Status r) \<and> Limited (cb_Status r) = card (breakEdges cycles) \<and>
         int (Count (cb_Status r)) = limit) \<and>
      (int (card (breakEdges cycles)) \<le> limit \<longrightarrow>
         \<not> Capped (cb_Status r) \<and> Count (cb_Status r) = card (breakEdges cycles)))"
proof (intro conjI allI impI; (elim conjE)?)
  assume h: "cycles = [] \<or>
    0 \<le> limit \<and> itemSize rt * limit \<le> maxAlloc rt \<and> itemSize rt * limit \<le> memAvail rt"
  show "\<exists>r. generateCycleBreakSuggestions rt a cycles limit = Inr r"
  proof (cases "cycles = []")
    case True
    then show ?thesis by (simp add: generate_no_cycles)
  next
    case False
    with h have "makeSlice rt limit = Inr []" by (simp add: makeSlice_Inr)
    from generate_result [OF False this, of a] show ?thesis by blast
  qed
next
  fix r
  assume r: "generateCycleBreakSuggestions rt a cycles limit = Inr r" and l: "0 \<le> limit"
  have "Count (cb_Status r) = length (Suggestions r) \<and>
      (int (card (breakEdges cycles)) > limit \<longrightarrow>
         Capped (cb_Status r) \<and> Limited (cb_Status r) = card (breakEdges cycles) \<and>
         int (Count (cb_Status r)) = limit) \<and>
      (int (card (breakEdges cycles)) \<le> limit \<longrightarrow>
         \<not> Capped (cb_Status r) \<and> Count (cb_Status r) = card (breakEdges cycles))"
  proof (cases "cycles = []")
    case True
    with r l show ?thesis by (auto simp: generate_no_cycles exNoCycles_def breakEdges_def)
  next
    case False
    from generate_result [OF False generate_returns [OF r False], of a] r
    obtain es where es: "distinct es" "set es = breakEdges cycles"
      and su: "Suggestions r = map (\<lambda>e. mkItem a (rankOf cycles e)) (take (nat limit) es)"
      and st: "cb_Status r = \<lparr>State = ''available'', Reason = [],
         Capped = (int (length es) > limit), Count = min (nat limit) (length es),
         Limited = length es\<rparr>"
      by auto
    from distinct_card [OF es(1)] es(2) have "length es = card (breakEdges cycles)" by simp
    with su st l show ?thesis by (auto simp: min_def)
  qed
  then show "Count (cb_Status r) = length (Suggestions r)"
    and "int (card (breakEdges cycles)) > limit \<Longrightarrow> Capped (cb_Status r)"
    and "int (card (breakEdges cycles)) > limit \<Longrightarrow>
      Limited (cb_Status r) = card (breakEdges cycles)"
    and "int (card (breakEdges cycles)) > limit \<Longrightarrow> int (Count (cb_Status r)) = limit"
    and "int (card (breakEdges cycles)) \<le> limit \<Longrightarrow> \<not> Capped (cb_Status r)"
    and "int (card (breakEdges cycles)) \<le> limit \<Longrightarrow>
      Count (cb_Status r) = card (breakEdges cycles)"
    by simp_all
qed

theorem capped_status_witness:
  "(0::int) \<le> 2 \<and> itemSize linux64 * 2 \<le> maxAlloc linux64 \<and>
   itemSize linux64 * 2 \<le> memAvail linux64 \<and> int (card (breakEdges exCycles)) > 2 \<and>
   generateCycleBreakSuggestions linux64 exGraph exCycles 2 = Inr exResult \<and>
   Capped (cb_Status exResult) \<and> Limited (cb_Status exResult) = 6 \<and>
   Count (cb_Status exResult) = 2 \<and> length (Suggestions exResult) = 2"
proof -
  have h: "(0::int) \<le> 2 \<and> itemSize linux64 * 2 \<le> maxAlloc linux64 \<and>
      itemSize linux64 * 2 \<le> memAvail linux64"
    by (simp add: linux64_def)
  have c: "card (breakEdges exCycles) = 6" by code_simp
  from capped_status [of exCycles 2 linux64 exGraph] generate_ex c h show ?thesis
    by (auto simp: exResult_def)
qed

text \<open>
  Claim C7 as stated fails for a negative limit when there is no cycle: no ranked edge is
  more than the limit \<open>-1\<close>, yet the function returns early with \<open>capped\<close> false, before the
  limit is looked at.
\<close>

theorem capped_status_counterexample:
  "generateCycleBreakSuggestions linux64 exGraph [] (- 1) = Inr exNoCycles \<and>
   int (card (breakEdges [])) > - 1 \<and> \<not> Capped (cb_Status exNoCycles)"
  by (simp add: generate_no_cycles exNoCycles_def breakEdges_def)

subsection \<open>Sentinel entries\<close>

lemma countedEdges_blank: "countedEdges (if skipped c then [] else c) = countedEdges c"
  by (simp add: countedEdges_def skipped_def)

lemma buildEdgeFreq_blankSkipped: "buildEdgeFreq (blankSkipped cycles) = buildEdgeFreq cycles"
proof -
  have "indexedEdges (blankSkipped cycles) [0..<length cycles] =
        indexedEdges cycles [0..<length cycles]"
    unfolding indexedEdges_def blankSkipped_def
    by (intro arg_cong [where f = concat] map_cong) (simp_all add: countedEdges_blank)
  then show ?thesis by (simp add: buildEdgeFreq_eq blankSkipped_def)
qed

lemma generate_blankSkipped:
  "generateCycleBreakSuggestions rt a (blankSkipped cycles) limit =
   generateCycleBreakSuggestions rt a cycles limit"
proof -
  have "length (blankSkipped cycles) = length cycles" by (simp add: blankSkipped_def)
  then show ?thesis
    by (cases "makeSlice rt limit")
      (simp_all add: generateCycleBreakSuggestions_def buildEdgeFreq_blankSkipped Let_def)
qed

text \<open>
  Claim C10, as amended. Entries that start with a sentinel marker or have fewer than 2
  nodes contribute no edges to the ranking: the result is the one computed with these
  entries emptied, and every suggested edge comes from entries that are not skipped, at
  least one. So, provided no marker string occurs in an entry that is not skipped, no
  suggested edge has a sentinel marker as an endpoint. The skipped entries still count in
  \<open>cycle_count\<close>, which is the length of the list of cycles.
\<close>

theorem sentinel_entries:
  assumes "generateCycleBreakSuggestions rt a cycles limit = Inr r"
  shows "CycleCount r = length cycles \<and>
     generateCycleBreakSuggestions rt a (blankSkipped cycles) limit = Inr r \<and>
     (\<forall>s \<in> set (Suggestions r). InCycles s \<noteq> [] \<and>
        (\<forall>i \<in> set (InCycles s). i < length cycles \<and> \<not> skipped (cycles ! i))) \<and>
     ((\<forall>c \<in> set cycles. \<not> skipped c \<longrightarrow> (\<forall>x \<in> set c. \<not> isMarker x)) \<longrightarrow>
        (\<forall>s \<in> set (Suggestions r). \<not> isMarker (EdgeFrom s) \<and> \<not> isMarker (EdgeTo s)))"
proof (intro conjI ballI impI)
  show "CycleCount r = length cycles"
    using assms
    by (auto simp: generateCycleBreakSuggestions_def Let_def split: if_splits sum.splits)
  show "generateCycleBreakSuggestions rt a (blankSkipped cycles) limit = Inr r"
    using assms by (simp add: generate_blankSkipped)
next
  fix s assume s: "s \<in> set (Suggestions r)"
  from suggestion_origin [OF assms s] obtain e where e: "e \<in> breakEdges cycles"
    "s = mkItem a (rankOf cycles e)" by blast
  from e(1) obtain c where c: "c \<in> set cycles" "e \<in> set (countedEdges c)"
    by (auto simp: breakEdges_def)
  from c(1) obtain i where "i < length cycles" "cycles ! i = c"
    by (auto simp: in_set_conv_nth)
  with c(2) have "i \<in> set (occurrences cycles e)" by (simp add: set_occurrences)
  with e(2) show "InCycles s \<noteq> []" by (auto simp: mkItem_def rankOf_def)
next
  fix s i assume s: "s \<in> set (Suggestions r)" and i: "i \<in> set (InCycles s)"
  from suggestion_origin [OF assms s] obtain e where e: "s = mkItem a (rankOf cycles e)"
    by blast
  with i have "i \<in> set (occurrences cycles e)" by (simp add: mkItem_def rankOf_def)
  then have "i < length cycles" "e \<in> set (countedEdges (cycles ! i))"
    by (simp_all add: set_occurrences)
  with countedEdges_nth [of e "cycles ! i"]
  show "i < length cycles" "\<not> skipped (cycles ! i)" by simp_all
next
  fix s
  assume h: "\<forall>c \<in> set cycles. \<not> skipped c \<longrightarrow> (\<forall>x \<in> set c. \<not> isMarker x)"
    and s: "s \<in> set (Suggestions r)"
  from suggestion_origin [OF assms s] obtain e where e: "e \<in> breakEdges cycles"
    "s = mkItem a (rankOf cycles e)" by blast
  from e(1) obtain c where c: "c \<in> set cycles" "e \<in> set (countedEdges c)"
    by (auto simp: breakEdges_def)
  from countedEdges_nth [OF c(2)] obtain j where j: "\<not> skipped c" "j < length c"
    "e = (c ! j, c ! ((j + 1) mod length c))" by blast
  from j(2) have "(j + 1) mod length c < length c" by (intro mod_less_divisor) auto
  with j(2) have "c ! j \<in> set c" "c ! ((j + 1) mod length c) \<in> set c"
    by (simp_all only: nth_mem)
  with h c(1) j(1) have "\<not> isMarker (c ! j)" "\<not> isMarker (c ! ((j + 1) mod length c))"
    by blast+
  with e(2) j(3) show "\<not> isMarker (EdgeFrom s)" "\<not> isMarker (EdgeTo s)"
    by (simp_all add: mkItem_def rankOf_def)
qed

lemma exCycles_blank:
  "blankSkipped exCycles = [[''a'', ''b''], [''a'', ''b'', ''c''], [], [''c'', ''a'', ''d'']]"
  by code_simp

theorem sentinel_entries_witness:
  "generateCycleBreakSuggestions linux64 exGraph exCycles 2 = Inr exResult \<and>
   skipped (exCycles ! 2) \<and> CycleCount exResult = length exCycles \<and>
   generateCycleBreakSuggestions linux64 exGraph
     [[''a'', ''b''], [''a'', ''b'', ''c''], [], [''c'', ''a'', ''d'']] 2 = Inr exResult \<and>
   \<not> isMarker ''a'' \<and> \<not> isMarker ''b'' \<and> \<not> isMarker ''c''"
proof -
  have "skipped (exCycles ! 2)" by code_simp
  moreover have "\<not> isMarker ''a''" "\<not> isMarker ''b''" "\<not> isMarker ''c''"
    by (simp_all add: isMarker_def)
  ultimately show ?thesis
    using sentinel_entries [OF generate_ex] generate_ex exCycles_blank by simp
qed

text \<open>
  Claim C10 as stated fails: when a cycle that is not skipped passes through an issue whose
  ID is a marker string, here the cycle between the issues \<open>a\<close> and \<open>...\<close>, the suggested
  edges have the marker as an endpoint. Only the first element of an entry is compared
  with the markers.
\<close>

theorem sentinel_endpoint_counterexample:
  "\<exists>r s. generateCycleBreakSuggestions linux64 exGraph [[''a'', ''...'']] 5 = Inr r \<and>
     s \<in> set (Suggestions r) \<and> EdgeFrom s = ''...'' \<and> EdgeTo s = ''a'' \<and>
     isMarker (EdgeFrom s)"
proof -
  have "generateCycleBreakSuggestions linux64 exGraph [[''a'', ''...'']] 5 =
     Inr \<lparr>cb_Status = \<lparr>State = ''available'', Reason = [], Capped = False, Count = 2,
            Limited = 2\<rparr>,
          Suggestions =
            [\<lparr>EdgeFrom = ''...'', EdgeTo = ''a'', Impact = 1, Collateral = 2, InCycles = [0],
               Rationale = ''Appears in most cycles; removing minimizes structural damage.''\<rparr>,
             \<lparr>EdgeFrom = ''a'', EdgeTo = ''...'', Impact = 1, Collateral = 0, InCycles = [0],
               Rationale = ''Appears in most cycles; removing minimizes structural damage.''\<rparr>],
          CycleCount = 1, HowToUse = cycleBreakHint,
          Advisory = ''Structural fix'' @
            [CHR 0xC3, CHR 0xA2, CHR 0xE2, CHR 0x82, CHR 0xAC, CHR 0xE2, CHR 0x80, CHR 0x9D] @
            ''apply cycle breaks BEFORE executing dependents.''\<rparr>"
    by code_simp
  then show ?thesis by (force simp: isMarker_def)
qed

section \<open>The instance lock\<close>

lemma openExcl_existing: "readLockFile fs p = Some info \<Longrightarrow> openExcl fs p = None"
  by (auto simp: readLockFile_def openExcl_def split: option.splits)

text \<open>
  Run alone on a lock file whose holder is alive, \<open>NewLock\<close> returns a lock that is not the
  first instance and records the holder; the file system is left as it was.
\<close>

lemma NewLock_holder_alive:
  assumes "readLockFile fs (lockPathOf beadsDir) = Some info"
    and "isProcessAlive running (PID info)"
  shows "NewLock running fs beadsDir me now hostname =
     (fs, (startNewLock beadsDir me now hostname)
            \<lparr>pos := Returned, currentPID := PID info,
             lock := \<lparr>path = lockPathOf beadsDir, lockFile = None, pid = PID info,
                      isFirst = False\<rparr>\<rparr>)"
  using assms openExcl_existing [OF assms(1)]
  by (simp add: NewLock_def eval_nat_numeral step_def startNewLock_def)

text \<open>
  The verification step claims the lock only when the lock file read then shows the own
  PID, and no step but the exclusive create and the verification sets \<open>isFirst\<close>.
\<close>

lemma claim_only_when_verified:
  assumes "step running (fs, p) = (fs', p')" and "isFirst (lock p')" and "\<not> isFirst (lock p)"
  shows "pos p = AtOpenExcl \<and> names fs (path (lock p)) = None \<or>
         pos p = AtVerify \<and> (\<exists>info. readLockFile fs (path (lock p)) = Some info \<and>
           PID info = self p)"
  using assms
  by (cases "pos p")
     (auto simp: step_def Let_def openExcl_def split: option.splits if_splits prod.splits)

text \<open>A process that finds the holder alive makes no further system call.\<close>

lemma holder_alive_returns:
  assumes "pos p = AtIsAlive" and "isProcessAlive running (currentPID p)"
  shows "step running (fs, p) =
     (fs, p\<lparr>lock := (lock p)\<lparr>pid := currentPID p\<rparr>, pos := Returned\<rparr>)"
  using assms by (simp add: step_def)

lemma tmpPath_pos [simp]: "tmpPath (p\<lparr>pos := x\<rparr>) = tmpPath p"
  by (simp add: tmpPath_def)

lemma tmpPath_neq: "tmpPath p \<noteq> path (lock p)"
  by (simp add: tmpPath_def)

lemma createTmp_result:
  assumes "openTrunc fs t = (fs1, f)"
  shows "names (writeFile fs1 f c) t = Some f \<and> contents (writeFile fs1 f c) f = c"
  using assms by (auto simp: openTrunc_def writeFile_def split: option.splits)

lemma rename_result:
  assumes "names fs t = Some f" and "contents fs f = Info info" and "t \<noteq> l"
  shows "\<exists>fs'. renameFile fs t l = Some fs' \<and> readLockFile fs' l = Some info \<and>
           names fs' t = None"
  using assms by (simp add: renameFile_def readLockFile_def)

text \<open>
  The takeover, run without interference from the creation of the temporary file on: it
  ends with the lock claimed whatever the lock file holds by then, be it the info of a
  process that is alive. The holder is not looked at again after \<open>AtIsAlive\<close>.
\<close>

lemma takeover_alone:
  assumes "pos p = AtCreateTmp"
  shows "\<exists>fs'. ((step running) ^^ 3) (fs, p) =
       (fs', p\<lparr>lock := (lock p)\<lparr>isFirst := True, pid := self p\<rparr>, pos := Returned\<rparr>) \<and>
     readLockFile fs' (path (lock p)) = Some (ownInfo p) \<and> names fs' (tmpPath p) = None"
proof -
  obtain fs1 f where o: "openTrunc fs (tmpPath p) = (fs1, f)" by (cases "openTrunc fs (tmpPath p)")
  define fs2 where "fs2 = writeFile fs1 f (Info (ownInfo p))"
  have s1: "step running (fs, p) = (fs2, p\<lparr>pos := AtRename\<rparr>)"
    using assms o by (simp add: step_def fs2_def)
  from createTmp_result [OF o, of "Info (ownInfo p)"]
  have "names fs2 (tmpPath p) = Some f" "contents fs2 f = Info (ownInfo p)"
    by (simp_all add: fs2_def)
  from rename_result [OF this tmpPath_neq]
  obtain fs3 where r: "renameFile fs2 (tmpPath p) (path (lock p)) = Some fs3"
    and v: "readLockFile fs3 (path (lock p)) = Some (ownInfo p)"
    and t: "names fs3 (tmpPath p) = None" by blast
  have s2: "step running (fs2, p\<lparr>pos := AtRename\<rparr>) = (fs3, p\<lparr>pos := AtVerify\<rparr>)"
    using r by (simp add: step_def)
  have s3: "step running (fs3, p\<lparr>pos := AtVerify\<rparr>) =
      (fs3, p\<lparr>lock := (lock p)\<lparr>isFirst := True, pid := self p\<rparr>, pos := Returned\<rparr>)"
    using v by (simp add: step_def ownInfo_def)
  have "((step running) ^^ 3) (fs, p) =
      (fs3, p\<lparr>lock := (lock p)\<lparr>isFirst := True, pid := self p\<rparr>, pos := Returned\<rparr>)"
    by (simp add: eval_nat_numeral s1 s2 s3)
  with v t show ?thesis by blast
qed

lemma reach_createTmp:
  assumes "readLockFile fs (lockPathOf beadsDir) = Some info"
    and "\<not> isProcessAlive running (PID info)"
  shows "((step running) ^^ 4) (fs, startNewLock beadsDir me now hostname) =
     (fs, (startNewLock beadsDir me now hostname)
            \<lparr>pos := AtCreateTmp, currentPID := PID info,
             lock := \<lparr>path = lockPathOf beadsDir, lockFile = None, pid = PID info,
                      isFirst = False\<rparr>\<rparr>)"
  using assms openExcl_existing [OF assms(1)]
  by (simp add: eval_nat_numeral step_def startNewLock_def)

text \<open>
  Run alone on a lock file whose holder is gone, \<open>NewLock\<close> takes the lock over: the lock
  file then holds the own info, the temporary file is gone, and the lock returned is the
  first instance.
\<close>

lemma NewLock_stale_takeover:
  assumes "readLockFile fs (lockPathOf beadsDir) = Some info"
    and "\<not> isProcessAlive running (PID info)"
  shows "\<exists>fs' p. NewLock running fs beadsDir me now hostname = (fs', p) \<and>
     pos p = Returned \<and> isFirst (lock p) \<and> pid (lock p) = me \<and>
     readLockFile fs' (lockPathOf beadsDir) =
       Some \<lparr>PID = me, StartedAt = now, Hostname = hostname\<rparr> \<and>
     names fs' (tmpPath p) = None"
proof -
  let ?p = "(startNewLock beadsDir me now hostname)
            \<lparr>pos := AtCreateTmp, currentPID := PID info,
             lock := \<lparr>path = lockPathOf beadsDir, lockFile = None, pid = PID info,
                      isFirst = False\<rparr>\<rparr>"
  have "NewLock running fs beadsDir me now hostname =
      ((step running) ^^ 3) (((step running) ^^ 4) (fs, startNewLock beadsDir me now hostname))"
  proof -
    have "(7::nat) = 3 + 4" by simp
    then show ?thesis unfolding NewLock_def by (simp only: funpow_add comp_def)
  qed
  also have "\<dots> = ((step running) ^^ 3) (fs, ?p)"
    by (simp only: reach_createTmp [OF assms])
  finally have n: "NewLock running fs beadsDir me now hostname = ((step running) ^^ 3) (fs, ?p)" .
  have "pos ?p = AtCreateTmp" by simp
  from takeover_alone [OF this, of running fs] n show ?thesis
    by (auto simp: startNewLock_def ownInfo_def tmpPath_def)
qed

lemma checkStaleOld_alive:
  "isProcessAlive running (pid l) \<Longrightarrow> checkStaleOld running me now hostname (fs, l) = (fs, l)"
  by (simp add: checkStaleOld_def)

lemma checkStaleOld_claims_stale_only:
  assumes "checkStaleOld running me now hostname (fs, l) = (fs', l')"
    and "isFirst l'" and "\<not> isFirst l"
  shows "\<not> isProcessAlive running (pid l)"
  using assms by (auto simp: checkStaleOld_def Let_def split: if_splits option.splits)

text \<open>
  Claim C6 fails in its last part. On a stale lock file, two processes that both read the
  stale holder before either renames can both claim the lock: the second process (202)
  finds the holder 999 gone and is about to create its temporary file; the first process
  (101) then runs \<open>NewLock\<close> to its end, renames, verifies and claims; the second then
  renames over the lock file of the first, which is alive, reads its own PID back and
  claims too. Both locks returned are first instances.
\<close>

theorem two_processes_both_claim:
  "pos (fst (snd raceEnd)) = Returned \<and> pos (snd (snd raceEnd)) = Returned \<and>
   self (fst (snd raceEnd)) = 101 \<and> self (snd (snd raceEnd)) = 202 \<and>
   isFirst (lock (fst (snd raceEnd))) \<and> isFirst (lock (snd (snd raceEnd))) \<and>
   isProcessAlive exRunning 101 \<and> isProcessAlive exRunning 202"
  by code_simp

section \<open>Triage of an empty project\<close>

lemma detectCycles_empty: "detectCycles cap [] = []"
  by (simp add: detectCycles_def)

lemma GenerateEnhanced_no_scores:
  "GenerateEnhancedRecommendationsWithThresholds cwd now [] basicRecs = []"
  by (simp add: GenerateEnhancedRecommendationsWithThresholds_def)

text \<open>
  Claim C5. For no issues the triage does not fail: it returns a result whose lists are all
  empty, whose counts are all zero, whose \<open>has_cycles\<close> is false, and whose commands are
  present, the commands on the top recommendation being the fallback text: no command with
  an empty issue ID is built. In the code at hand, the enhanced recommendations of no
  scores are empty as well.
\<close>

theorem ComputeTriage_empty:
  "\<exists>r. ComputeTriage score fallback [] = Inr r \<and>
     Recommendations r = [] \<and> QuickWins r = [] \<and> BlockersToClear r = [] \<and>
     TopPicks (tr_QuickRef r) = [] \<and>
     OpenCount (tr_QuickRef r) = 0 \<and> ActionableCount (tr_QuickRef r) = 0 \<and>
     BlockedCount (tr_QuickRef r) = 0 \<and>
     Total (Counts r) = 0 \<and> Open (Counts r) = 0 \<and> Closed (Counts r) = 0 \<and>
     Blocked (Counts r) = 0 \<and> Actionable (Counts r) = 0 \<and>
     (\<forall>t. ByType (Counts r) t = 0) \<and> (\<forall>s. ByStatus (Counts r) s = 0) \<and>
     (\<forall>p. ByPriority (Counts r) p = 0) \<and>
     NodeCount (Graph r) = 0 \<and> EdgeCount (Graph r) = 0 \<and> Density (Graph r) = 0 \<and>
     \<not> HasCycles (Graph r) \<and> gh_CycleCount (Graph r) = 0 \<and>
     ListReady (Commands r) = ''bd ready'' \<and>
     ClaimTop (Commands r) = fallback \<and> ShowTop (Commands r) = fallback \<and>
     (fallback \<noteq> claimCommand [] \<longrightarrow> ClaimTop (Commands r) \<noteq> claimCommand []) \<and>
     GenerateEnhancedRecommendationsWithThresholds cwd now [] basicRecs = []"
  by (simp add: ComputeTriage_def ComputeTriageWithOptions_def withDefaults_def
      TopRecommendations_def QuickWinsOf_def BlockersToClearOf_def ActionableSet_def
      buildCommands_def density_def detectCycles_empty GenerateEnhanced_no_scores)

theorem ComputeTriage_empty_witness:
  "''# no issue to claim'' \<noteq> claimCommand [] \<and>
   (\<exists>r. ComputeTriage (\<lambda>i. 0) ''# no issue to claim'' [] = Inr r \<and>
      Recommendations r = [] \<and> \<not> HasCycles (Graph r) \<and>
      ClaimTop (Commands r) = ''# no issue to claim'' \<and>
      ClaimTop (Commands r) \<noteq> ''bd update  --status=in_progress'')"
proof -
  have h: "''# no issue to claim'' \<noteq> claimCommand []" by (simp add: claimCommand_def)
  obtain r where "ComputeTriage (\<lambda>i. 0) ''# no issue to claim'' [] = Inr r"
    "Recommendations r = []" "\<not> HasCycles (Graph r)"
    "ClaimTop (Commands r) = ''# no issue to claim''"
    "''# no issue to claim'' \<noteq> claimCommand [] \<longrightarrow> ClaimTop (Commands r) \<noteq> claimCommand []"
    using ComputeTriage_empty [of "\<lambda>i. 0" "''# no issue to claim''"] by blast
  with h show ?thesis by (auto simp: claimCommand_def)
qed

section \<open>The scenarios of the specification\<close>

text \<open>
  The model of the specification agrees with the literal scenarios A, B, C and E of its
  section 8, as far as they do not depend on the impact score.
\<close>

lemma scenario_A:
  "map ID (ActionableSet scenarioA) = [''B''] \<and>
   WhatIf defaultCap scenarioA ''B'' =
     Some \<lparr>DirectUnblocks = 1, TransitiveUnblocks = 1, UnblockedIssueIDs = [''A'']\<rparr>"
  by code_simp

lemma scenario_B:
  "detectCycles 50 scenarioB = [[''A'', ''B'']] \<and> ActionableSet scenarioB = []"
  by code_simp

lemma scenario_C:
  "map ID (ActionableSet scenarioC) = [''x''] \<and>
   map_option DirectUnblocks (WhatIf defaultCap scenarioC ''x'') = Some 1"
  by code_simp

lemma scenario_B_break:
  "\<exists>r. generateCycleBreakSuggestions linux64 exGraph (detectCycles 50 scenarioB) 5 = Inr r \<and>
     CycleCount r = 1 \<and>
     map (\<lambda>s. (EdgeFrom s, EdgeTo s)) (Suggestions r) = [(''A'', ''B''), (''B'', ''A'')]"
proof -
  have "map (\<lambda>s. (EdgeFrom s, EdgeTo s))
      (case generateCycleBreakSuggestions linux64 exGraph (detectCycles 50 scenarioB) 5 of
         Inr r \<Rightarrow> Suggestions r | Inl e \<Rightarrow> []) = [(''A'', ''B''), (''B'', ''A'')]"
    by code_simp
  moreover have "(case generateCycleBreakSuggestions linux64 exGraph (detectCycles 50 scenarioB) 5 of
         Inr r \<Rightarrow> CycleCount r | Inl e \<Rightarrow> 0) = 1"
    by code_simp
  ultimately show ?thesis
    by (cases "generateCycleBreakSuggestions linux64 exGraph (detectCycles 50 scenarioB) 5") auto
qed

end
